theory Spec2Isabelle
  imports Main
begin

section \<open>JavaScript values used by the router\<close>

text \<open>
  The router is written in JavaScript. Four features of the language decide what
  the code does and are written out in the model:
  \<^item> an optional string argument is \<open>undefined\<close>, \<open>null\<close> or a string, and the
    tests \<open>if (x)\<close>, \<open>x || d\<close> and \<open>x && y\<close> take the empty string for absent;
  \<^item> a value used as a property name is converted to a string;
  \<^item> a \<open>throw\<close>, and a property read on \<open>undefined\<close>, end the call with an error;
  \<^item> a plain object \<open>{}\<close> used as a dictionary has the properties it was given, its
    own ones, and inherits the members of \<open>Object.prototype\<close>: \<open>obj[k]\<close> finds an
    own property first and a member of \<open>Object.prototype\<close> after that.
  \<open>None\<close> stands for \<open>undefined\<close> and \<open>null\<close> alike wherever the code only
  tests a value for truth. A character is a code unit below 256, so a string is a
  string of Latin-1 characters. The objects of the language (\<open>Object.prototype\<close>
  and the functions it holds) are taken as the engine starts them; a call of the
  router that would change one of them is marked as such and not followed further.

  What the code leaves to its callers is kept abstract: resource ids, keys and path
  segments are strings; the \<open>options\<close> of an instance are a value of any type;
  \<open>childValidate\<close> is a predicate on the segment; an \<open>init\<close> hook is a function
  from the instance it finds to the instance it leaves, and does not throw; a
  handler is the sequence of its notes and of its calls of the continuation.
\<close>

datatype jsval = Undefined | Null | Str string

fun truthy :: "jsval \<Rightarrow> bool" where
  "truthy (Str s) = (s \<noteq> [])"
| "truthy _ = False"

text \<open>The property name a value denotes in \<open>obj[v]\<close>.\<close>

fun prop_key :: "jsval \<Rightarrow> string" where
  "prop_key Undefined = ''undefined''"
| "prop_key Null = ''null''"
| "prop_key (Str s) = s"

text \<open>
  The members of \<open>Object.prototype\<close> that every plain object inherits, by name (the
  own property names of \<open>Object.prototype\<close> in Node.js). Under
  \<open>__proto__\<close> a plain object answers with \<open>Object.prototype\<close> itself, under
  \<open>constructor\<close> with the function \<open>Object\<close>, under every other name with a method
  that is a function but no constructor. Each of these values counts as true.
\<close>

definition inherited_names :: "string list" where
  "inherited_names =
     [''constructor'', ''__defineGetter__'', ''__defineSetter__'', ''hasOwnProperty'',
      ''__lookupGetter__'', ''__lookupSetter__'', ''isPrototypeOf'', ''propertyIsEnumerable'',
      ''toString'', ''valueOf'', ''__proto__'', ''toLocaleString'']"

definition inherited :: "string \<Rightarrow> bool" where
  "inherited k = (k \<in> set inherited_names)"

text \<open>
  What \<open>obj[k]\<close> finds in a plain object with the own properties \<open>obj\<close>: an own
  property, the member of \<open>Object.prototype\<close> of that name, or nothing
  (\<open>undefined\<close>).
\<close>

datatype 'v property = Own 'v | Inherited string | Missing

definition read :: "(string \<rightharpoonup> 'v) \<Rightarrow> string \<Rightarrow> 'v property" where
  "read obj k =
     (case obj k of
        Some v \<Rightarrow> Own v
      | None \<Rightarrow> if inherited k then Inherited k else Missing)"

text \<open>
  The string an inherited member is converted to, when it is used as a property
  name or appended to a message: the source text of a function of the language (the
  function under \<open>constructor\<close> is named \<open>Object\<close>), and \<open>[object Object]\<close> for
  \<open>Object.prototype\<close>.
\<close>

definition member_text :: "string \<Rightarrow> string" where
  "member_text k =
     (if k = ''__proto__'' then ''[object Object]''
      else if k = ''constructor'' then ''function Object() { [native code] }''
      else ''function '' @ k @ ''() { [native code] }'')"

text \<open>
  How a call ends when it does not return a value of the router. The errors of the
  module are named after their messages: \<open>NotRegistered id\<close> is
  \<open>'there is no registered resource: ' + id\<close>, \<open>RootNotSet\<close> is
  \<open>"root resource hasn't been set yet."\<close>, \<open>MissingHandlers\<close> is
  \<open>'registerPath() requires callback functions'\<close>, \<open>InvalidHandlerType\<close> is
  \<open>"registerPath() requires callback functions of 'function' type"\<close>.
  \<open>TypeError\<close> is the error the language raises for a property read on
  \<open>undefined\<close> or \<open>null\<close>, for a call of a value that is no function, and for
  \<open>new\<close> on a value that is no constructor.

  \<open>Builtin k\<close> is no exception. It marks a call that goes on with the inherited
  member \<open>k\<close> in place of a value of the router: the call reads or writes a
  property of that member, or returns it, or returns an object that \<open>new Object\<close>
  made and that is no resource instance, or, for \<open>__proto__\<close>, assigns to it and so
  replaces the prototype of a dictionary. What the code does from there depends on
  the objects of the language and is not followed here; a result \<open>Builtin k\<close> says
  that the call got there, and nothing about how it ends.
\<close>

datatype error = NotRegistered string | RootNotSet | MissingHandlers
  | InvalidHandlerType | TypeError | Builtin string

section \<open>Resource instances and resource types\<close>

text \<open>
  An instance holds the fields the constructor \<open>Resource\<close> and the factory set
  (\<open>resource\<close>, \<open>key\<close>, \<open>parent\<close>, \<open>options\<close>) and the members it reads through
  its prototype (\<open>children\<close>, \<open>child\<close>, \<open>childValidate\<close>). The prototype is fixed
  when the instance is made, so the members are stored with the instance.
\<close>

datatype 'a inst = Inst
  (resource: string)
  (key: "string option")
  (parent: "'a inst option")
  (options: "'a option")
  (children: "(string \<rightharpoonup> string) option")
  (child: "string option")
  (childValidate: "string \<Rightarrow> bool")

text \<open>
  The second argument of \<open>registerResource\<close>, as far as the router reads it: each
  member is optional, and one that is left out is inherited from
  \<open>Resource.prototype\<close>. The hook \<open>init\<close> runs with
  \<open>this\<close> bound to the instance and may assign to it: it maps the instance to the
  instance it leaves behind.
\<close>

record 'a proto =
  proto_children :: "(string \<rightharpoonup> string) option"
  proto_child :: "string option"
  proto_childValidate :: "(string \<Rightarrow> bool) option"
  proto_init :: "('a inst \<Rightarrow> 'a inst) option"

text \<open>\<open>Resource.prototype.childValidate\<close>: \<open>return !!key\<close>.\<close>

definition Resource_childValidate :: "string \<Rightarrow> bool" where
  "Resource_childValidate k = (k \<noteq> [])"

text \<open>\<open>Resource.prototype.init\<close>: the empty function.\<close>

definition Resource_init :: "'a inst \<Rightarrow> 'a inst" where
  "Resource_init this = this"

text \<open>
  The function \<open>obj\<close> that \<open>registerResource\<close> builds: it remembers the id it was
  registered under and carries the prototype made from \<open>proto\<close>.
\<close>

datatype 'a factory = Factory (factory_id: string) (factory_proto: "'a proto")

definition init_of :: "'a factory \<Rightarrow> 'a inst \<Rightarrow> 'a inst" where
  "init_of f = (case proto_init (factory_proto f) of None \<Rightarrow> Resource_init | Some h \<Rightarrow> h)"

text \<open>
  The object \<open>new obj(...)\<close> starts from: no own field yet, the members of the
  prototype visible.
\<close>

definition blank :: "'a factory \<Rightarrow> 'a inst" where
  "blank f = Inst [] None None None
     (proto_children (factory_proto f))
     (proto_child (factory_proto f))
     (case proto_childValidate (factory_proto f) of
        None \<Rightarrow> Resource_childValidate | Some v \<Rightarrow> v)"

text \<open>The constructor \<open>Resource(key, parent, options)\<close>, applied to \<open>this\<close>.\<close>

definition Resource :: "'a inst \<Rightarrow> string option \<Rightarrow> 'a inst option \<Rightarrow> 'a option \<Rightarrow> 'a inst" where
  "Resource this k p opts =
     Inst (resource this) k p opts (children this) (child this) (childValidate this)"

text \<open>
  \<open>new obj(key, parent, options)\<close>: set \<open>this.resource = id\<close>, run the constructor
  \<open>Resource\<close>, call \<open>inst.init()\<close>, return \<open>inst\<close>.
\<close>

definition new_obj :: "'a factory \<Rightarrow> string option \<Rightarrow> 'a inst option \<Rightarrow> 'a option \<Rightarrow> 'a inst" where
  "new_obj f k p opts =
     (let this = Inst (factory_id f) None None None
            (children (blank f)) (child (blank f)) (childValidate (blank f));
          inst = Resource this k p opts
      in init_of f inst)"

section \<open>The traversal object\<close>

text \<open>
  A registered handler is a JavaScript value: a function, or anything else. What
  a handler function does with the continuation it is given is all the router can
  depend on, so a handler is the sequence of its steps: it records something of its
  own (\<open>Note\<close>), or it calls the continuation it received (\<open>CallNext\<close>).
\<close>

datatype 'e act = Note 'e | CallNext

datatype 'e callback = Fn "'e act list" | NotFn

fun callable :: "'e callback \<Rightarrow> bool" where
  "callable (Fn _) = True"
| "callable NotFn = False"

type_synonym 'e method_table = "string \<rightharpoonup> 'e callback list"
type_synonym 'e parent_table = "string \<rightharpoonup> 'e method_table"
type_synonym 'e name_table = "string \<rightharpoonup> 'e parent_table"
type_synonym 'e path_table = "string \<rightharpoonup> 'e name_table"

text \<open>
  The traversal object. \<open>resources\<close> and \<open>paths\<close> hold the own properties of the
  two dictionaries. The field \<open>this.root\<close> is a pair here: \<open>root\<close> holds the
  factory when the root is a registered resource type, \<open>root_builtin\<close> the name of
  the inherited member when \<open>setRootResource\<close> found one of those in the registry;
  at most one of the two is set, and \<open>this.root\<close> is unset when neither is.
\<close>

record ('a, 'e) traversal =
  resources :: "string \<rightharpoonup> 'a factory"
  paths :: "'e path_table"
  root :: "'a factory option"
  root_builtin :: "string option"

text \<open>\<open>new Traversal\<close>: the constructor sets \<open>resources\<close> and \<open>paths\<close>; \<open>root\<close> is not set.\<close>

definition Traversal :: "('a, 'e) traversal" where
  "Traversal = \<lparr>resources = Map.empty, paths = Map.empty, root = None, root_builtin = None\<rparr>"

text \<open>\<open>checkResource\<close>: \<open>if (!this.resources[id]) throw ...\<close>.\<close>

definition checkResource :: "('a, 'e) traversal \<Rightarrow> string \<Rightarrow> error + unit" where
  "checkResource t ident =
     (case read (resources t) ident of
        Missing \<Rightarrow> Inl (NotRegistered ident)
      | Own f \<Rightarrow> Inr ()
      | Inherited n \<Rightarrow> Inr ())"

text \<open>
  \<open>registerResource\<close>: \<open>this.resources[id] = obj\<close>. The assignment makes an own
  property, also under the name of an inherited method. Under \<open>__proto__\<close> it makes
  none: it replaces the prototype of the registry by \<open>obj\<close>, and what the registry
  inherits from then on is not followed.
\<close>

definition registerResource ::
  "('a, 'e) traversal \<Rightarrow> string \<Rightarrow> 'a proto \<Rightarrow> error + ('a, 'e) traversal" where
  "registerResource t ident p =
     (if ident = ''__proto__'' then Inl (Builtin ident)
      else Inr (t\<lparr>resources := (resources t)(ident \<mapsto> Factory ident p)\<rparr>))"

text \<open>
  What \<open>v ? new v(key, parent, options) : null\<close> gives for a value \<open>v\<close> read from
  the registry: \<open>null\<close>, a resource instance, or, when \<open>v\<close> is the inherited
  function \<open>Object\<close>, the object \<open>new Object(key, parent, options)\<close>, which is a
  \<open>String\<close> object holding the key, or an empty plain object when there is no
  key. The inherited methods and \<open>Object.prototype\<close> are no constructors, and
  \<open>new\<close> raises on them.
\<close>

datatype 'a made = Returned_null | Instance "'a inst" | Object_of "string option"

definition new_or_null ::
  "'a factory property \<Rightarrow> string option \<Rightarrow> 'a inst option \<Rightarrow> 'a option \<Rightarrow> error + 'a made" where
  "new_or_null v k p opts =
     (case v of
        Own f \<Rightarrow> Inr (Instance (new_obj f k p opts))
      | Inherited n \<Rightarrow> if n = ''constructor'' then Inr (Object_of k) else Inl TypeError
      | Missing \<Rightarrow> Inr Returned_null)"

definition initResource ::
  "('a, 'e) traversal \<Rightarrow> string \<Rightarrow> string option \<Rightarrow> 'a inst option \<Rightarrow> 'a option
     \<Rightarrow> error + 'a made" where
  "initResource t ident k p opts = new_or_null (read (resources t) ident) k p opts"

text \<open>\<open>setRootResource\<close>: \<open>this.checkResource(id); this.root = this.resources[id]\<close>.\<close>

definition setRootResource :: "('a, 'e) traversal \<Rightarrow> string \<Rightarrow> error + ('a, 'e) traversal" where
  "setRootResource t ident =
     (case checkResource t ident of
        Inl e \<Rightarrow> Inl e
      | Inr _ \<Rightarrow>
         (case read (resources t) ident of
            Own f \<Rightarrow> Inr (t\<lparr>root := Some f, root_builtin := None\<rparr>)
          | Inherited n \<Rightarrow> Inr (t\<lparr>root := None, root_builtin := Some n\<rparr>)
          | Missing \<Rightarrow> Inr (t\<lparr>root := None, root_builtin := None\<rparr>)))"

definition clear :: "('a, 'e) traversal \<Rightarrow> ('a, 'e) traversal" where
  "clear t = t\<lparr>resources := Map.empty, paths := Map.empty, root := None, root_builtin := None\<rparr>"

section \<open>Resolving one segment\<close>

text \<open>
  \<open>Resource.prototype.get\<close>. \<open>this.children && this.children[key]\<close> holds when the
  instance has a \<open>children\<close> object and that object has a non-empty id of its own
  under \<open>key\<close>, or none of its own and \<open>key\<close> is the name of an inherited member.
  \<open>children_at\<close> is the name under which the value found is looked up in the
  registry: the id itself, or the text of the inherited member. \<open>this.child &&
  this.childValidate(key)\<close> holds when the instance has a non-empty \<open>child\<close> id and
  the predicate accepts the key. \<open>checkResource\<close> throws before the factory is read.
  When the factory read is the inherited function \<open>Object\<close>, \<open>get\<close> returns the
  \<open>String\<close> object that \<open>new Object(key, this)\<close> makes; that is no resource
  instance, and the result here is \<open>Builtin\<close>.
\<close>

definition children_at :: "'a inst \<Rightarrow> string \<Rightarrow> string option" where
  "children_at this k =
     (case children this of
        None \<Rightarrow> None
      | Some m \<Rightarrow>
         (case read m k of
            Own c \<Rightarrow> if c \<noteq> [] then Some c else None
          | Inherited n \<Rightarrow> Some (member_text n)
          | Missing \<Rightarrow> None))"

definition child_for :: "'a inst \<Rightarrow> string \<Rightarrow> string option" where
  "child_for this k =
     (case child this of
        None \<Rightarrow> None
      | Some c \<Rightarrow> if c \<noteq> [] \<and> childValidate this k then Some c else None)"

definition get :: "('a, 'e) traversal \<Rightarrow> 'a inst \<Rightarrow> string \<Rightarrow> error + 'a inst option" where
  "get t this k =
     (let found =
        (case children_at this k of
           Some c \<Rightarrow>
             (case checkResource t c of Inl e \<Rightarrow> Inl e | Inr _ \<Rightarrow> Inr (read (resources t) c))
         | None \<Rightarrow>
             (case child_for this k of
                Some c \<Rightarrow>
                  (case checkResource t c of Inl e \<Rightarrow> Inl e | Inr _ \<Rightarrow> Inr (read (resources t) c))
              | None \<Rightarrow> Inr Missing))
      in case found of
           Inl e \<Rightarrow> Inl e
         | Inr factory \<Rightarrow>
             (case new_or_null factory (Some k) (Some this) None of
                Inl e \<Rightarrow> Inl e
              | Inr Returned_null \<Rightarrow> Inr None
              | Inr (Instance x) \<Rightarrow> Inr (Some x)
              | Inr (Object_of s) \<Rightarrow> Inl (Builtin ''constructor'')))"

text \<open>
  \<open>Resource.prototype.traverseTo\<close>. The inner function reads \<open>resource.resource\<close>
  before it tests \<open>resource\<close>, so it raises on \<open>undefined\<close>.
\<close>

lemma size_parent: "parent r = Some y \<Longrightarrow> size y < size r"
  by (cases r) simp

function traverseTo_rec :: "string \<Rightarrow> 'a inst option \<Rightarrow> error + 'a inst option" where
  "traverseTo_rec resourceId None = Inl TypeError"
| "traverseTo_rec resourceId (Some r) =
     (if resource r = resourceId then Inr (Some r)
      else if parent r \<noteq> None then traverseTo_rec resourceId (parent r)
      else Inr None)"
  by pat_completeness auto
termination
  by (relation "measure (\<lambda>(i, r). size_option size r)") (auto simp: size_parent)

definition traverseTo :: "'a inst \<Rightarrow> string \<Rightarrow> error + 'a inst option" where
  "traverseTo this resourceId = traverseTo_rec resourceId (parent this)"

text \<open>The parent chain of an instance, nearest first.\<close>

function ancestors :: "'a inst \<Rightarrow> 'a inst list" where
  "ancestors r = (case parent r of None \<Rightarrow> [] | Some p \<Rightarrow> p # ancestors p)"
  by pat_completeness auto
termination
  by (relation "measure size") (auto simp: size_parent)

section \<open>The path handler table\<close>

text \<open>
  The options object \<open>{name, parent, method}\<close> of \<open>registerResourcePath\<close> and
  \<open>getResourcePath\<close>; the object itself is always passed.
\<close>

record ops =
  ops_name :: jsval
  ops_parent :: jsval
  ops_method :: jsval

text \<open>
  \<open>String.prototype.toLowerCase\<close>, character by character. The capital letters
  below 256 are \<open>A\<close> to \<open>Z\<close> (65 to 90) and the accented capitals 192 to 222 but
  for the multiplication sign 215; the small letter of each is 32 above it, and
  every other character is kept. On \<open>undefined\<close> and \<open>null\<close> the method call
  raises.
\<close>

definition lower_char :: "char \<Rightarrow> char" where
  "lower_char c =
     (let n = (of_char c :: nat)
      in if 65 \<le> n \<and> n \<le> 90 \<or> 192 \<le> n \<and> n \<le> 214 \<or> 216 \<le> n \<and> n \<le> 222
         then char_of (n + 32) else c)"

fun toLowerCase :: "jsval \<Rightarrow> error + string" where
  "toLowerCase (Str s) = Inr (map lower_char s)"
| "toLowerCase _ = Inl TypeError"

text \<open>\<open>ops.name || 'index'\<close>, \<open>ops.parent || 'all'\<close>.\<close>

definition or_default :: "jsval \<Rightarrow> string \<Rightarrow> string" where
  "or_default v d = (if truthy v then prop_key v else d)"

text \<open>\<open>ops.method ? ops.method.toLowerCase() : 'all'\<close>.\<close>

definition method_key :: "jsval \<Rightarrow> string" where
  "method_key v =
     (if truthy v then (case toLowerCase v of Inr m \<Rightarrow> m | Inl _ \<Rightarrow> ''all'') else ''all'')"

text \<open>
  \<open>if (!obj[k]) obj[k] = {}\<close>, then \<open>obj[k]\<close>: the bucket that \<open>obj\<close> has under
  \<open>k\<close>, or a new empty one. Under the name of an inherited member the test finds
  that member, no bucket is made, and the writes that follow go into the member,
  an object of the language that every plain object shares.
\<close>

definition bucket ::
  "(string \<rightharpoonup> (string \<rightharpoonup> 'v)) \<Rightarrow> string \<Rightarrow> error + (string \<rightharpoonup> 'v)" where
  "bucket obj k =
     (case read obj k of
        Own b \<Rightarrow> Inr b
      | Inherited n \<Rightarrow> Inl (Builtin n)
      | Missing \<Rightarrow> Inr Map.empty)"

text \<open>
  The writes of \<open>registerResourcePath\<close> into \<open>this.paths\<close> (its lines 139 to
  151), as a function of the own properties of \<open>this.paths\<close>. The last
  assignment, \<open>...[method] = callbacks\<close>, makes an own property but under
  \<open>__proto__\<close>, where it replaces the prototype of the bucket.
\<close>

definition store ::
  "'e path_table \<Rightarrow> string \<Rightarrow> ops \<Rightarrow> 'e callback list \<Rightarrow> error + 'e path_table" where
  "store ps resourceId ops callbacks =
     (case bucket ps resourceId of
        Inl e \<Rightarrow> Inl e
      | Inr names \<Rightarrow>
         (let name' = or_default (ops_name ops) ''index'' in
          case bucket names name' of
            Inl e \<Rightarrow> Inl e
          | Inr parents \<Rightarrow>
             (let parent' = or_default (ops_parent ops) ''all'' in
              case bucket parents parent' of
                Inl e \<Rightarrow> Inl e
              | Inr methods \<Rightarrow>
                 (let method' = method_key (ops_method ops) in
                  if method' = ''__proto__'' then Inl (Builtin method')
                  else Inr (ps(resourceId \<mapsto>
                    names(name' \<mapsto> parents(parent' \<mapsto> methods(method' \<mapsto> callbacks)))))))))"

text \<open>
  \<open>registerResourcePath\<close>: the checks, then the writes. \<open>!this.root\<close> holds when
  no root of either kind is set.
\<close>

definition registerResourcePath ::
  "('a, 'e) traversal \<Rightarrow> string \<Rightarrow> ops \<Rightarrow> 'e callback list \<Rightarrow> error + ('a, 'e) traversal" where
  "registerResourcePath t resourceId ops callbacks =
     (if root t = None \<and> root_builtin t = None then Inl RootNotSet
      else case checkResource t resourceId of
        Inl e \<Rightarrow> Inl e
      | Inr _ \<Rightarrow>
         (case (if truthy (ops_parent ops) then checkResource t (prop_key (ops_parent ops))
                else Inr ()) of
            Inl e \<Rightarrow> Inl e
          | Inr _ \<Rightarrow>
             if callbacks = [] then Inl MissingHandlers
             else if \<not> list_all callable callbacks then Inl InvalidHandlerType
             else
               (case store (paths t) resourceId ops callbacks of
                  Inl e \<Rightarrow> Inl e
                | Inr ps \<Rightarrow> Inr (t\<lparr>paths := ps\<rparr>))))"

text \<open>
  \<open>getResourcePath\<close>. The parent bucket is the one under \<open>ops.parent\<close> when there
  is one, else the one under \<open>'all'\<close>; the method is looked up in that bucket only.
  \<open>None\<close> is the result \<open>null\<close> of the last line and the \<open>undefined\<close> of a bucket
  without the method. An inherited member counts as true wherever a bucket is
  tested, and the lookup goes on in it; one found under the method is returned.
  \<open>ops.method.toLowerCase()\<close> is evaluated before the bucket chosen is read.
\<close>

definition getResourcePath ::
  "('a, 'e) traversal \<Rightarrow> string \<Rightarrow> ops \<Rightarrow> error + 'e callback list option" where
  "getResourcePath t resourceId ops =
     (case read (paths t) resourceId of
        Missing \<Rightarrow> Inr None
      | Inherited n \<Rightarrow> Inl (Builtin n)
      | Own names \<Rightarrow>
         (case read names (or_default (ops_name ops) ''index'') of
            Missing \<Rightarrow> Inr None
          | Inherited n \<Rightarrow> Inl (Builtin n)
          | Own name' \<Rightarrow>
             (case (case read name' (prop_key (ops_parent ops)) of
                      Missing \<Rightarrow> read name' ''all''
                    | Own b \<Rightarrow> Own b
                    | Inherited n \<Rightarrow> Inherited n) of
                Missing \<Rightarrow> Inr None
              | Inherited n \<Rightarrow>
                 (case toLowerCase (ops_method ops) of
                    Inl e \<Rightarrow> Inl e
                  | Inr m \<Rightarrow> Inl (Builtin n))
              | Own parent' \<Rightarrow>
                 (case toLowerCase (ops_method ops) of
                    Inl e \<Rightarrow> Inl e
                  | Inr m \<Rightarrow>
                     (case read parent' m of
                        Own cbs \<Rightarrow> Inr (Some cbs)
                      | Inherited n \<Rightarrow> Inl (Builtin n)
                      | Missing \<Rightarrow>
                         (case read parent' ''all'' of
                            Own cbs \<Rightarrow> Inr (Some cbs)
                          | Inherited n \<Rightarrow> Inl (Builtin n)
                          | Missing \<Rightarrow> Inr None))))))"

section \<open>Building the chain\<close>

text \<open>
  The request: the fields the router reads (\<open>url\<close>, \<open>method\<close>) and the ones it
  writes (\<open>pathname\<close>, \<open>subpath\<close>, \<open>resource\<close>); a field not yet written is \<open>None\<close>.
\<close>

record 'a request =
  url :: string
  req_method :: string
  pathname :: "string option"
  subpath :: "string list option"
  req_resource :: "'a inst option"

text \<open>\<open>String.prototype.split\<close> with a one-character separator.\<close>

fun js_split :: "string \<Rightarrow> char \<Rightarrow> string list" where
  "js_split [] sep = [[]]"
| "js_split (c # cs) sep =
     (if c = sep then [] # js_split cs sep
      else (case js_split cs sep of
              [] \<Rightarrow> [[c]]
            | w # ws \<Rightarrow> (c # w) # ws))"

text \<open>\<open>Array.prototype.join\<close>.\<close>

fun js_join :: "string list \<Rightarrow> string \<Rightarrow> string" where
  "js_join [] sep = []"
| "js_join [x] sep = x"
| "js_join (x # y # ys) sep = x @ sep @ js_join (y # ys) sep"

text \<open>
  The inner function \<open>_build\<close> of \<open>buildChain\<close>, with the array \<open>paths\<close> it shifts
  (here \<open>path # rest\<close>) and the request it writes passed along. \<open>paths.shift()\<close> on the empty array is
  \<open>undefined\<close>, so \<open>if (path)\<close> fails there, as it does on an empty string.
\<close>

fun build ::
  "('a, 'e) traversal \<Rightarrow> 'a inst \<Rightarrow> string list \<Rightarrow> 'a request \<Rightarrow> error + ('a inst \<times> 'a request)" where
  "build t rsrc [] req = Inr (rsrc, req)"
| "build t rsrc (path # rest) req =
     (if path \<noteq> [] then
        (case get t rsrc path of
           Inl e \<Rightarrow> Inl e
         | Inr None \<Rightarrow> Inr (rsrc, req\<lparr>pathname := Some path, subpath := Some rest\<rparr>)
         | Inr (Some resource_n) \<Rightarrow> build t resource_n rest req)
      else Inr (rsrc, req))"

text \<open>
  \<open>buildChain\<close>; \<open>new this.root()\<close> raises when no root has been set, and when the
  root is an inherited member that is no constructor. When the root is the function
  \<open>Object\<close>, \<open>new this.root()\<close> is an empty plain object: it is returned as it is
  for a path without segments, and \<open>resource.get(path)\<close> raises on it.
\<close>

definition buildChain ::
  "('a, 'e) traversal \<Rightarrow> 'a request \<Rightarrow> error + ('a inst \<times> 'a request)" where
  "buildChain t req =
     (let segs = filter (\<lambda>el. el \<noteq> []) (js_split (url req) CHR ''/'')
      in case root t of
           None \<Rightarrow>
             (case root_builtin t of
                None \<Rightarrow> Inl TypeError
              | Some n \<Rightarrow>
                  if n = ''constructor'' \<and> segs = [] then Inl (Builtin n) else Inl TypeError)
         | Some f \<Rightarrow> build t (new_obj f None None None) segs req)"

section \<open>Rebuilding the URL\<close>

function getKeyAndParent :: "'a inst \<Rightarrow> string list \<Rightarrow> string list" where
  "getKeyAndParent rsrc parts =
     (let parts1 = (case key rsrc of
                      Some k \<Rightarrow> if k \<noteq> [] then k # parts else parts
                    | None \<Rightarrow> parts)
      in case parent rsrc of
           Some p \<Rightarrow> getKeyAndParent p parts1
         | None \<Rightarrow> parts1)"
  by pat_completeness auto
termination
  by (relation "measure (\<lambda>(r, ps). size r)") (auto simp: size_parent)

definition buildResourceUrl :: "'a inst \<Rightarrow> jsval \<Rightarrow> string" where
  "buildResourceUrl rsrc pname =
     CHR ''/'' # js_join (getKeyAndParent rsrc (if truthy pname then [prop_key pname] else [])) ''/''"

section \<open>The middleware\<close>

text \<open>
  What a run of the handlers leaves behind: the counter \<open>i\<close> that the closure
  \<open>_callback\<close> shares between its calls, and the log of what happened.
  \<open>Called j k\<close>: \<open>callbacks[j]\<close> was called with the continuation \<open>k\<close>, which is
  \<open>_callback\<close> (\<open>Internal\<close>) or the \<open>next\<close> of the middleware (\<open>External\<close>);
  \<open>Noted e\<close>: a handler recorded \<open>e\<close>; \<open>Fallback\<close>: \<open>next\<close> was called.
\<close>

datatype cont = Internal | External

datatype 'e event = Called nat cont | Noted 'e | Fallback

record 'e run =
  i :: int
  trace :: "'e event list"

text \<open>
  \<open>_callback\<close> and the handler it calls. A handler that calls \<open>_callback\<close> waits
  for it to return and goes on; an exception ends every pending call, so the outcome
  is the error, if any, and the state reached. The first argument bounds the depth
  of calls of \<open>_callback\<close>: \<open>None\<close> is a run cut off by the bound.
  \<open>callbacks[i]\<close> beyond the array is \<open>undefined\<close>, and calling it raises.
\<close>

fun run_handler ::
  "nat \<Rightarrow> 'e callback list \<Rightarrow> cont \<Rightarrow> 'e act list \<Rightarrow> 'e run \<Rightarrow> (error option \<times> 'e run) option"
and callback_rec ::
  "nat \<Rightarrow> 'e callback list \<Rightarrow> 'e run \<Rightarrow> (error option \<times> 'e run) option" where
  "run_handler n callbacks k [] s = Some (None, s)"
| "run_handler n callbacks k (Note e # acts) s =
     run_handler n callbacks k acts (s\<lparr>trace := trace s @ [Noted e]\<rparr>)"
| "run_handler n callbacks External (CallNext # acts) s =
     run_handler n callbacks External acts (s\<lparr>trace := trace s @ [Fallback]\<rparr>)"
| "run_handler n callbacks Internal (CallNext # acts) s =
     (case callback_rec n callbacks s of
        None \<Rightarrow> None
      | Some (Some e, s') \<Rightarrow> Some (Some e, s')
      | Some (None, s') \<Rightarrow> run_handler n callbacks Internal acts s')"
| "callback_rec 0 callbacks s = None"
| "callback_rec (Suc n) callbacks s =
     (let s1 = s\<lparr>i := i s + 1\<rparr>;
          k = (if i s1 + 1 = int (length callbacks) then External else Internal)
      in if 0 \<le> i s1 \<and> nat (i s1) < length callbacks then
           (case callbacks ! nat (i s1) of
              Fn body \<Rightarrow>
                run_handler n callbacks k body (s1\<lparr>trace := trace s1 @ [Called (nat (i s1)) k]\<rparr>)
            | NotFn \<Rightarrow> Some (Some TypeError, s1))
         else Some (Some TypeError, s1))"

text \<open>
  The end of \<open>middleware\<close>: \<open>if (callbacks && callbacks.length)\<close> start the chain
  with \<open>i = -1\<close>, else \<open>return next()\<close>.
\<close>

definition dispatch ::
  "nat \<Rightarrow> 'e callback list option \<Rightarrow> (error option \<times> 'e run) option" where
  "dispatch n found =
     (case found of
        Some callbacks \<Rightarrow>
          if callbacks \<noteq> [] then callback_rec n callbacks \<lparr>i = - 1, trace = []\<rparr>
          else Some (None, \<lparr>i = - 1, trace = [Fallback]\<rparr>)
      | None \<Rightarrow> Some (None, \<lparr>i = - 1, trace = [Fallback]\<rparr>))"

text \<open>
  The options the middleware looks the handlers up with: \<open>{name: req.pathname,
  method: req.method, parent: resource.parent ? resource.parent.resource : null}\<close>.
\<close>

definition lookup_ops :: "'a inst \<Rightarrow> 'a request \<Rightarrow> ops" where
  "lookup_ops leaf req =
     \<lparr>ops_name = (case pathname req of None \<Rightarrow> Undefined | Some p \<Rightarrow> Str p),
      ops_parent = (case parent leaf of None \<Rightarrow> Null | Some p \<Rightarrow> Str (resource p)),
      ops_method = Str (req_method req)\<rparr>"

text \<open>
  \<open>traversal.middleware\<close>: build the chain, store the leaf in \<open>req.resource\<close>, look
  the handlers up and dispatch. (The function it also stores in
  \<open>req.buildResourceUrl\<close> is \<open>buildResourceUrl\<close> above.) The result is the way
  \<open>buildChain\<close> or \<open>getResourcePath\<close> ended when they gave no leaf or no answer
  (an error raised before any handler ran, or \<open>Builtin\<close>), or the request together
  with the outcome of the run.
\<close>

definition middleware ::
  "nat \<Rightarrow> ('a, 'e) traversal \<Rightarrow> 'a request
     \<Rightarrow> (error + ('a request \<times> error option \<times> 'e run)) option" where
  "middleware n t req =
     (case buildChain t req of
        Inl e \<Rightarrow> Some (Inl e)
      | Inr (leaf, req1) \<Rightarrow>
         (let req2 = req1\<lparr>req_resource := Some leaf\<rparr> in
          case getResourcePath t (resource leaf) (lookup_ops leaf req2) of
            Inl e \<Rightarrow> Some (Inl e)
          | Inr found \<Rightarrow>
             (case dispatch n found of
                None \<Rightarrow> None
              | Some (err, s) \<Rightarrow> Some (Inr (req2, err, s)))))"

section \<open>Reading the table, and sequences of calls\<close>

text \<open>\<open>paths[r][n][p][m]\<close>, where every bucket on the way exists.\<close>

definition entry :: "'e path_table \<Rightarrow> string \<Rightarrow> string \<Rightarrow> string \<Rightarrow> string \<Rightarrow> 'e callback list option" where
  "entry ps r n p m =
     (case ps r of
        None \<Rightarrow> None
      | Some names \<Rightarrow>
         (case names n of
            None \<Rightarrow> None
          | Some parents \<Rightarrow> (case parents p of None \<Rightarrow> None | Some methods \<Rightarrow> methods m)))"

text \<open>
  What \<open>registerResourcePath\<close> checks before it writes, as the code tests it: a
  root has been set, \<open>checkResource\<close> passes for the resource, and for \<open>ops.parent\<close>
  when one is given, there is a callback, and every callback is a function.
\<close>

definition preconditions :: "('a, 'e) traversal \<Rightarrow> string \<Rightarrow> ops \<Rightarrow> 'e callback list \<Rightarrow> bool" where
  "preconditions t resourceId ops callbacks =
     (\<not> (root t = None \<and> root_builtin t = None)
      \<and> checkResource t resourceId = Inr ()
      \<and> (if truthy (ops_parent ops) then checkResource t (prop_key (ops_parent ops)) = Inr ()
          else True)
      \<and> callbacks \<noteq> [] \<and> list_all callable callbacks)"

text \<open>
  The calls that change the traversal object. A call that throws leaves the object
  as it was: \<open>setRootResource\<close> and \<open>registerResourcePath\<close> throw before their
  first assignment. A call that ends in \<open>Builtin\<close> assigns to no field of the
  traversal object and to no property of the registry: it writes into an object of
  the language, replaces the prototype of a dictionary, or stops after it has made
  an empty bucket. The sequence goes on from the object as it was known before that
  call; what the call left behind for later lookups is not tracked.
\<close>

datatype ('a, 'e) call =
    RegisterResource string "'a proto"
  | SetRootResource string
  | RegisterResourcePath string ops "'e callback list"
  | Clear

fun perform :: "('a, 'e) call \<Rightarrow> ('a, 'e) traversal \<Rightarrow> ('a, 'e) traversal" where
  "perform (RegisterResource ident p) t =
     (case registerResource t ident p of Inl e \<Rightarrow> t | Inr t' \<Rightarrow> t')"
| "perform (SetRootResource ident) t =
     (case setRootResource t ident of Inl e \<Rightarrow> t | Inr t' \<Rightarrow> t')"
| "perform (RegisterResourcePath resourceId ops callbacks) t =
     (case registerResourcePath t resourceId ops callbacks of Inl e \<Rightarrow> t | Inr t' \<Rightarrow> t')"
| "perform Clear t = clear t"

fun is_SetRootResource :: "('a, 'e) call \<Rightarrow> bool" where
  "is_SetRootResource (SetRootResource ident) = True"
| "is_SetRootResource c = False"

definition perform_all :: "('a, 'e) call list \<Rightarrow> ('a, 'e) traversal \<Rightarrow> ('a, 'e) traversal" where
  "perform_all cs t = foldl (\<lambda>t c. perform c t) t cs"

section \<open>Notions used to state the properties\<close>

text \<open>
  \<open>descends t r segs leaf\<close>: starting at \<open>r\<close>, \<open>get\<close> resolves the segments one
  after the other, each on the instance the one before gave, and ends at \<open>leaf\<close>.
\<close>

inductive descends :: "('a, 'e) traversal \<Rightarrow> 'a inst \<Rightarrow> string list \<Rightarrow> 'a inst \<Rightarrow> bool" where
  here: "descends t r [] r"
| step: "get t r s = Inr (Some r1) \<Longrightarrow> descends t r1 ss r2 \<Longrightarrow> descends t r (s # ss) r2"

text \<open>The segments of a path: \<open>url.split('/').filter(function(el){ return !!el; })\<close>.\<close>

definition segments :: "string \<Rightarrow> string list" where
  "segments u = filter (\<lambda>el. el \<noteq> []) (js_split u CHR ''/'')"

text \<open>
  The part of the path that was not resolved, as the request holds it after
  \<open>buildChain\<close>: the segment that found no match in \<open>req.pathname\<close> (the name the
  middleware looks handlers up under), the segments after it in \<open>req.subpath\<close>.
\<close>

definition unresolved :: "'a request \<Rightarrow> string list" where
  "unresolved req =
     (case pathname req of
        None \<Rightarrow> []
      | Some p \<Rightarrow> p # (case subpath req of None \<Rightarrow> [] | Some ps \<Rightarrow> ps))"

text \<open>A resource type whose \<open>init\<close> hook leaves \<open>key\<close> and \<open>parent\<close> as the constructor set them.\<close>

definition keeps_key_parent :: "'a factory \<Rightarrow> bool" where
  "keeps_key_parent f = (\<forall>x. key (init_of f x) = key x \<and> parent (init_of f x) = parent x)"


text \<open>
  The calls of handlers in a log, and the log of calls when the first \<open>m\<close> of
  \<open>len\<close> handlers are called in the order of the array, each with \<open>_callback\<close>
  but the last of the array, which is called with \<open>next\<close>.
\<close>

fun is_Called :: "'e event \<Rightarrow> bool" where
  "is_Called (Called j k) = True"
| "is_Called e = False"

definition calls :: "'e event list \<Rightarrow> 'e event list" where
  "calls tr = filter is_Called tr"

definition in_order :: "nat \<Rightarrow> nat \<Rightarrow> 'e event list" where
  "in_order len m = map (\<lambda>j. Called j (if Suc j = len then External else Internal)) [0..<m]"

text \<open>
  The invariant of a run: the handlers called so far are \<open>callbacks[0]\<close> to
  \<open>callbacks[i]\<close>, in this order, and \<open>next\<close> has only been called once the counter
  has reached the last handler.
\<close>

definition orderly :: "'e callback list \<Rightarrow> 'e run \<Rightarrow> bool" where
  "orderly hs s =
     (- 1 \<le> i s
      \<and> calls (trace s) = in_order (length hs) (min (nat (i s + 1)) (length hs))
      \<and> (Fallback \<in> set (trace s) \<longrightarrow> int (length hs) \<le> i s + 1))"

text \<open>
  A handler that records \<open>fst pp\<close>, calls its continuation once, and records
  \<open>snd pp\<close>; and the log of a chain of such handlers, from the \<open>j\<close>-th on.
\<close>

definition handler_of :: "'e list \<times> 'e list \<Rightarrow> 'e callback" where
  "handler_of pp = Fn (map Note (fst pp) @ CallNext # map Note (snd pp))"

fun chain_trace :: "nat \<Rightarrow> nat \<Rightarrow> ('e list \<times> 'e list) list \<Rightarrow> 'e event list" where
  "chain_trace len j [] = [Fallback]"
| "chain_trace len j (pp # rest) =
     Called j (if Suc j = len then External else Internal) # map Noted (fst pp)
       @ chain_trace len (Suc j) rest @ map Noted (snd pp)"

text \<open>A path table in which every entry is a non-empty array of functions.\<close>

definition well_formed :: "'e path_table \<Rightarrow> bool" where
  "well_formed ps =
     (\<forall>r n p m cbs. entry ps r n p m = Some cbs \<longrightarrow> cbs \<noteq> [] \<and> list_all callable cbs)"

section \<open>A small site\<close>

text \<open>
  The configuration used for the concrete runs below: the root has the static
  child \<open>users\<close>; \<open>users\<close> has the dynamic child \<open>user\<close>, for keys made of digits;
  \<open>user\<close> has no children.
\<close>

definition numeric :: "string \<Rightarrow> bool" where
  "numeric s = (s \<noteq> [] \<and> list_all (\<lambda>c. c \<in> set ''0123456789'') s)"

definition plain :: "'a proto" where
  "plain = \<lparr>proto_children = None, proto_child = None, proto_childValidate = None,
     proto_init = None\<rparr>"

definition root_proto :: "'a proto" where
  "root_proto = plain\<lparr>proto_children := Some [''users'' \<mapsto> ''users'']\<rparr>"

definition users_proto :: "'a proto" where
  "users_proto = plain\<lparr>proto_child := Some ''user'', proto_childValidate := Some numeric\<rparr>"

text \<open>
  An \<open>init\<close> hook that reads \<open>this.parent\<close> and \<open>this.key\<close>:
  \<open>this.options = this.parent.resource + ':' + this.key\<close> (with the empty string
  for a missing parent or key).
\<close>

definition stamp :: "string inst \<Rightarrow> string inst" where
  "stamp this =
     Inst (resource this) (key this) (parent this)
       (Some ((case parent this of None \<Rightarrow> [] | Some p \<Rightarrow> resource p) @ '':''
              @ (case key this of None \<Rightarrow> [] | Some k \<Rightarrow> k)))
       (children this) (child this) (childValidate this)"

definition user_proto :: "string proto" where
  "user_proto = plain\<lparr>proto_init := Some stamp\<rparr>"

definition site :: "(string, string) traversal" where
  "site = perform_all
     [RegisterResource ''root'' root_proto, RegisterResource ''users'' users_proto,
      RegisterResource ''user'' user_proto, SetRootResource ''root'']
     Traversal"

text \<open>The instances a request for \<open>/users/42\<close> goes through.\<close>

definition root_inst :: "string inst" where
  "root_inst = new_obj (Factory ''root'' root_proto) None None None"

definition users_inst :: "string inst" where
  "users_inst = new_obj (Factory ''users'' users_proto) (Some ''users'') (Some root_inst) None"

definition user_inst :: "string inst" where
  "user_inst = new_obj (Factory ''user'' user_proto) (Some ''42'') (Some users_inst) None"

definition no_ops :: ops where
  "no_ops = \<lparr>ops_name = Undefined, ops_parent = Undefined, ops_method = Undefined\<rparr>"

text \<open>A \<open>GET\<close> request for a path, as it arrives.\<close>

definition get_req :: "string \<Rightarrow> string request" where
  "get_req u = \<lparr>url = u, req_method = ''GET'', pathname = None, subpath = None, req_resource = None\<rparr>"

text \<open>A \<open>POST\<close> request for a path.\<close>

definition post_req :: "string \<Rightarrow> string request" where
  "post_req u = \<lparr>url = u, req_method = ''POST'', pathname = None, subpath = None, req_resource = None\<rparr>"

text \<open>The site with three paths registered for \<open>user\<close>.\<close>

definition routes :: "(string, string) traversal" where
  "routes = perform_all
     [RegisterResourcePath ''user''
        \<lparr>ops_name = Undefined, ops_parent = Str ''users'', ops_method = Str ''GET''\<rparr>
        [Fn [Note ''show'']],
      RegisterResourcePath ''user'' no_ops [Fn [Note ''any'']],
      RegisterResourcePath ''user''
        \<lparr>ops_name = Str ''edit'', ops_parent = Undefined, ops_method = Str ''POST''\<rparr>
        [Fn [Note ''auth'', CallNext], Fn [Note ''save'', CallNext]]]
     site"

text \<open>A site whose root names a child type that was never registered.\<close>

definition dangling :: "(string, string) traversal" where
  "dangling = perform_all
     [RegisterResource ''root'' (plain\<lparr>proto_children := Some [''projects'' \<mapsto> ''project'']\<rparr>),
      SetRootResource ''root'']
     Traversal"

section \<open>The small site, evaluated\<close>

lemma read_own: "obj k = Some v \<Longrightarrow> read obj k = Own v"
  by (simp add: read_def)

lemma read_none: "obj k = None \<Longrightarrow> read obj k = (if inherited k then Inherited k else Missing)"
  by (simp add: read_def)

lemma not_inherited:
  "\<not> inherited ''all''" "\<not> inherited ''index''" "\<not> inherited ''null''"
  "\<not> inherited ''undefined''" "\<not> inherited ''root''" "\<not> inherited ''users''"
  "\<not> inherited ''user''" "\<not> inherited ''project''" "\<not> inherited ''projects''"
  "\<not> inherited ''edit''" "\<not> inherited ''get''" "\<not> inherited ''post''"
  "\<not> inherited ''42''" "\<not> inherited ''abc''" "\<not> inherited ''7''"
  "\<not> inherited ''function toString() { [native code] }''"
  by (simp_all add: inherited_def inherited_names_def)

lemma is_inherited:
  "inherited ''constructor''" "inherited ''toString''" "inherited ''__proto__''"
  by (simp_all add: inherited_def inherited_names_def)

lemma site_eq:
  "site = \<lparr>resources = [''root'' \<mapsto> Factory ''root'' root_proto,
       ''users'' \<mapsto> Factory ''users'' users_proto, ''user'' \<mapsto> Factory ''user'' user_proto],
     paths = Map.empty, root = Some (Factory ''root'' root_proto), root_builtin = None\<rparr>"
  by (simp add: site_def perform_all_def registerResource_def setRootResource_def
        checkResource_def read_def Traversal_def)

lemma site_root: "root site = Some (Factory ''root'' root_proto)" "root_builtin site = None"
  by (simp_all add: site_eq)

lemma site_paths: "paths site = Map.empty"
  by (simp add: site_eq)

lemma site_resources:
  "resources site ''root'' = Some (Factory ''root'' root_proto)"
  "resources site ''users'' = Some (Factory ''users'' users_proto)"
  "resources site ''user'' = Some (Factory ''user'' user_proto)"
  "resources site ''project'' = None"
  "resources site ''constructor'' = None"
  "resources site ''toString'' = None"
  "resources site ''function toString() { [native code] }'' = None"
  by (simp_all add: site_eq)

lemma site_read:
  "read (resources site) ''root'' = Own (Factory ''root'' root_proto)"
  "read (resources site) ''users'' = Own (Factory ''users'' users_proto)"
  "read (resources site) ''user'' = Own (Factory ''user'' user_proto)"
  "read (resources site) ''project'' = Missing"
  "read (resources site) ''constructor'' = Inherited ''constructor''"
  "read (resources site) ''toString'' = Inherited ''toString''"
  "read (resources site) ''function toString() { [native code] }'' = Missing"
  by (simp_all add: read_def site_resources not_inherited is_inherited)

lemma root_inst_eq:
  "root_inst = Inst ''root'' None None None (Some [''users'' \<mapsto> ''users'']) None Resource_childValidate"
  by (simp add: root_inst_def new_obj_def Resource_def init_of_def Resource_init_def blank_def
      root_proto_def plain_def)

lemma users_inst_eq:
  "users_inst = Inst ''users'' (Some ''users'') (Some root_inst) None None (Some ''user'') numeric"
  by (simp add: users_inst_def new_obj_def Resource_def init_of_def Resource_init_def blank_def
      users_proto_def plain_def)

lemma user_inst_eq:
  "user_inst = Inst ''user'' (Some ''42'') (Some users_inst) (Some ''users:42'') None None
     Resource_childValidate"
  by (simp add: user_inst_def new_obj_def Resource_def init_of_def stamp_def blank_def
      user_proto_def plain_def users_inst_eq)

lemma site_get_users: "get site root_inst ''users'' = Inr (Some users_inst)"
  by (simp add: get_def children_at_def checkResource_def read_own new_or_null_def
      site_read root_inst_eq users_inst_def)

lemma site_get_42: "get site users_inst ''42'' = Inr (Some user_inst)"
  by (simp add: get_def children_at_def child_for_def checkResource_def new_or_null_def
      site_read users_inst_eq numeric_def user_inst_def)

lemma site_get_edit: "get site user_inst ''edit'' = Inr None"
  by (simp add: get_def children_at_def child_for_def new_or_null_def user_inst_eq)

lemma site_descends: "descends site root_inst [''users'', ''42''] user_inst"
  by (rule descends.step [OF site_get_users], rule descends.step [OF site_get_42],
      rule descends.here)

lemma site_keeps:
  "keeps_key_parent (Factory ''root'' (root_proto :: string proto))"
  "\<forall>g \<in> ran (resources site). keeps_key_parent g"
  by (auto simp: keeps_key_parent_def init_of_def Resource_init_def stamp_def root_proto_def
      users_proto_def user_proto_def plain_def site_eq ran_def split: if_splits)

lemma dangling_eq:
  "dangling = \<lparr>resources =
       [''root'' \<mapsto> Factory ''root'' (plain\<lparr>proto_children := Some [''projects'' \<mapsto> ''project'']\<rparr>)],
     paths = Map.empty,
     root = Some (Factory ''root'' (plain\<lparr>proto_children := Some [''projects'' \<mapsto> ''project'']\<rparr>)),
     root_builtin = None\<rparr>"
  by (simp add: dangling_def perform_all_def registerResource_def setRootResource_def
        checkResource_def read_def Traversal_def)

lemma dangling_get:
  "get dangling
     (new_obj (Factory ''root'' (plain\<lparr>proto_children := Some [''projects'' \<mapsto> ''project'']\<rparr>))
        None None None) ''projects''
     = Inl (NotRegistered ''project'')"
  by (simp add: get_def children_at_def checkResource_def read_def not_inherited dangling_eq
      new_obj_def Resource_def init_of_def Resource_init_def blank_def plain_def)

lemma lower_char_letters:
  "lower_char CHR ''G'' = CHR ''g''" "lower_char CHR ''E'' = CHR ''e''"
  "lower_char CHR ''T'' = CHR ''t''" "lower_char CHR ''P'' = CHR ''p''"
  "lower_char CHR ''O'' = CHR ''o''" "lower_char CHR ''S'' = CHR ''s''"
  "lower_char CHR ''g'' = CHR ''g''" "lower_char CHR ''e'' = CHR ''e''"
  "lower_char CHR ''t'' = CHR ''t''" "lower_char CHR ''p'' = CHR ''p''"
  "lower_char CHR ''o'' = CHR ''o''" "lower_char CHR ''s'' = CHR ''s''"
  "lower_char CHR ''c'' = CHR ''c''" "lower_char CHR ''n'' = CHR ''n''"
  "lower_char CHR ''r'' = CHR ''r''" "lower_char CHR ''u'' = CHR ''u''"
  by code_simp+

text \<open>The capital E with an acute accent, character 201, and its small letter, 233.\<close>

lemma lower_char_accent: "lower_char (char_of (201 :: nat)) = char_of (233 :: nat)"
  by code_simp

lemma routes_paths:
  "paths routes = [''user'' \<mapsto>
     [''index'' \<mapsto> [''users'' \<mapsto> [''get'' \<mapsto> [Fn [Note ''show'']]],
                     ''all'' \<mapsto> [''all'' \<mapsto> [Fn [Note ''any'']]]],
      ''edit'' \<mapsto> [''all'' \<mapsto> [''post'' \<mapsto> [Fn [Note ''auth'', CallNext], Fn [Note ''save'', CallNext]]]]]]"
  by (simp add: routes_def perform_all_def registerResourcePath_def store_def checkResource_def
      read_def not_inherited site_eq no_ops_def or_default_def method_key_def
      lower_char_letters bucket_def Let_def)

lemma routes_root:
  "root routes = root site" "root_builtin routes = root_builtin site"
  "resources routes = resources site"
  by (simp_all add: routes_def perform_all_def registerResourcePath_def store_def
      checkResource_def read_def not_inherited site_eq no_ops_def or_default_def method_key_def
      lower_char_letters bucket_def Let_def)

lemma method_key_POST: "method_key (Str ''POST'') = ''post''"
  by code_simp

section \<open>Properties of the path handler table\<close>

lemma checkResource_Inr:
  "checkResource t ident = Inr u \<longleftrightarrow> read (resources t) ident \<noteq> Missing"
  by (simp add: checkResource_def split: property.splits)

lemma checkResource_Inl:
  "checkResource t ident = Inl e \<longleftrightarrow> e = NotRegistered ident \<and> read (resources t) ident = Missing"
  by (auto simp: checkResource_def split: property.splits)

lemma bucket_Inl: "bucket obj k = Inl e \<longleftrightarrow> e = Builtin k \<and> obj k = None \<and> inherited k"
  by (auto simp: bucket_def read_def split: option.splits)

lemma bucket_Inr:
  "bucket obj k = Inr b \<longleftrightarrow>
     obj k = Some b \<or> obj k = None \<and> \<not> inherited k \<and> b = Map.empty"
  by (auto simp: bucket_def read_def split: option.splits)

text \<open>
  The ways \<open>registerResourcePath\<close> ends, each with the condition under which it
  does. \<open>checkResource\<close> passes for every name that the registry has of its own
  or inherits.
\<close>

lemma store_Inl:
  "store ps r ops cbs = Inl e \<Longrightarrow> \<exists>n. e = Builtin n \<and> inherited n"
  unfolding store_def Let_def
  by (auto simp: bucket_Inl is_inherited split: sum.splits if_splits)

lemma registerResourcePath_unfold:
  "registerResourcePath t r ops cbs =
     (if root t = None \<and> root_builtin t = None then Inl RootNotSet
      else if read (resources t) r = Missing then Inl (NotRegistered r)
      else if truthy (ops_parent ops) \<and> read (resources t) (prop_key (ops_parent ops)) = Missing
        then Inl (NotRegistered (prop_key (ops_parent ops)))
      else if cbs = [] then Inl MissingHandlers
      else if \<not> list_all callable cbs then Inl InvalidHandlerType
      else (case store (paths t) r ops cbs of Inl e \<Rightarrow> Inl e | Inr ps \<Rightarrow> Inr (t\<lparr>paths := ps\<rparr>)))"
  by (simp add: registerResourcePath_def checkResource_def split: property.splits)

lemma preconditions_unfold:
  "preconditions t r ops cbs \<longleftrightarrow>
     \<not> (root t = None \<and> root_builtin t = None) \<and> read (resources t) r \<noteq> Missing
     \<and> \<not> (truthy (ops_parent ops) \<and> read (resources t) (prop_key (ops_parent ops)) = Missing)
     \<and> cbs \<noteq> [] \<and> list_all callable cbs"
  by (auto simp: preconditions_def checkResource_Inr)

lemma registerResourcePath_RootNotSet:
  "registerResourcePath t resourceId ops callbacks = Inl RootNotSet \<longleftrightarrow>
     root t = None \<and> root_builtin t = None"
  by (auto simp: registerResourcePath_unfold split: sum.splits dest: store_Inl)

lemma registerResourcePath_NotRegistered:
  "registerResourcePath t resourceId ops callbacks = Inl (NotRegistered x) \<longleftrightarrow>
     \<not> (root t = None \<and> root_builtin t = None) \<and>
     (x = resourceId \<and> read (resources t) resourceId = Missing
      \<or> read (resources t) resourceId \<noteq> Missing \<and> truthy (ops_parent ops)
         \<and> x = prop_key (ops_parent ops) \<and> read (resources t) x = Missing)"
  by (auto simp: registerResourcePath_unfold split: sum.splits dest: store_Inl)

lemma registerResourcePath_MissingHandlers:
  "registerResourcePath t resourceId ops callbacks = Inl MissingHandlers \<longleftrightarrow>
     \<not> (root t = None \<and> root_builtin t = None) \<and> checkResource t resourceId = Inr ()
     \<and> (if truthy (ops_parent ops) then checkResource t (prop_key (ops_parent ops)) = Inr ()
         else True)
     \<and> callbacks = []"
  by (auto simp: registerResourcePath_unfold checkResource_Inr split: sum.splits dest: store_Inl)

lemma registerResourcePath_InvalidHandlerType:
  "registerResourcePath t resourceId ops callbacks = Inl InvalidHandlerType \<longleftrightarrow>
     \<not> (root t = None \<and> root_builtin t = None) \<and> checkResource t resourceId = Inr ()
     \<and> (if truthy (ops_parent ops) then checkResource t (prop_key (ops_parent ops)) = Inr ()
         else True)
     \<and> callbacks \<noteq> [] \<and> \<not> list_all callable callbacks"
  by (auto simp: registerResourcePath_unfold checkResource_Inr split: sum.splits dest: store_Inl)

lemma registerResourcePath_TypeError:
  "registerResourcePath t resourceId ops callbacks \<noteq> Inl TypeError"
  by (auto simp: registerResourcePath_unfold split: sum.splits dest: store_Inl)

lemma registerResourcePath_Builtin:
  "registerResourcePath t resourceId ops callbacks = Inl (Builtin n) \<longleftrightarrow>
     preconditions t resourceId ops callbacks \<and> store (paths t) resourceId ops callbacks = Inl (Builtin n)"
  by (auto simp: registerResourcePath_unfold preconditions_unfold split: sum.splits)

lemma registerResourcePath_Inr:
  "registerResourcePath t resourceId ops callbacks = Inr t' \<longleftrightarrow>
     preconditions t resourceId ops callbacks \<and>
     (\<exists>ps. store (paths t) resourceId ops callbacks = Inr ps \<and> t' = t\<lparr>paths := ps\<rparr>)"
  by (auto simp: registerResourcePath_unfold preconditions_unfold split: sum.splits)

lemma store_Inr:
  "store ps r ops cbs = Inr ps' \<longleftrightarrow>
     (\<exists>names parents methods.
        bucket ps r = Inr names
        \<and> bucket names (or_default (ops_name ops) ''index'') = Inr parents
        \<and> bucket parents (or_default (ops_parent ops) ''all'') = Inr methods
        \<and> method_key (ops_method ops) \<noteq> ''__proto__''
        \<and> ps' = ps(r \<mapsto> names(or_default (ops_name ops) ''index'' \<mapsto>
                parents(or_default (ops_parent ops) ''all'' \<mapsto>
                  methods(method_key (ops_method ops) \<mapsto> cbs)))))"
  unfolding store_def Let_def
  by (auto split: sum.splits if_splits)

lemma entry_update:
  assumes "bucket ps r = Inr names" and "bucket names n = Inr parents"
    and "bucket parents p = Inr methods"
  shows "entry (ps(r \<mapsto> names(n \<mapsto> parents(p \<mapsto> methods(m \<mapsto> cbs))))) r' n' p' m' =
   (if r' = r \<and> n' = n \<and> p' = p \<and> m' = m then Some cbs else entry ps r' n' p' m')"
proof -
  have 1: "names = (case ps r of None \<Rightarrow> Map.empty | Some b \<Rightarrow> b)"
    using assms(1) by (auto simp: bucket_Inr)
  have 2: "parents = (case names n of None \<Rightarrow> Map.empty | Some b \<Rightarrow> b)"
    using assms(2) by (auto simp: bucket_Inr)
  have 3: "methods = (case parents p of None \<Rightarrow> Map.empty | Some b \<Rightarrow> b)"
    using assms(3) by (auto simp: bucket_Inr)
  show ?thesis
    unfolding 3 2 1 by (auto simp: entry_def split: option.splits)
qed

lemma store_entry:
  "store ps r ops cbs = Inr ps' \<Longrightarrow>
     entry ps' r' n' p' m' =
       (if r' = r \<and> n' = or_default (ops_name ops) ''index''
           \<and> p' = or_default (ops_parent ops) ''all'' \<and> m' = method_key (ops_method ops)
        then Some cbs else entry ps r' n' p' m')"
  by (auto simp: store_Inr entry_update)

text \<open>
  Where none of the four names of the entry is the name of an inherited member,
  the call succeeds exactly when the checks pass, and it stores the callbacks under
  the resource, the name (or \<open>index\<close>), the parent (or \<open>all\<close>) and the method in
  lower case (or \<open>all\<close>); every other entry, the registry and the root are as
  before.
\<close>

lemma store_plain:
  assumes "\<not> inherited r" and "\<not> inherited (or_default (ops_name ops) ''index'')"
    and "\<not> inherited (or_default (ops_parent ops) ''all'')"
    and "\<not> inherited (method_key (ops_method ops))"
  shows "\<exists>ps'. store ps r ops cbs = Inr ps'"
proof -
  from assms(1) obtain names where n: "bucket ps r = Inr names"
    by (cases "ps r") (auto simp: bucket_Inr)
  from assms(2) obtain parents where
    p: "bucket names (or_default (ops_name ops) ''index'') = Inr parents"
    by (cases "names (or_default (ops_name ops) ''index'')") (auto simp: bucket_Inr)
  from assms(3) obtain methods where
    m: "bucket parents (or_default (ops_parent ops) ''all'') = Inr methods"
    by (cases "parents (or_default (ops_parent ops) ''all'')") (auto simp: bucket_Inr)
  from assms(4) have k: "method_key (ops_method ops) \<noteq> ''__proto__''"
    using is_inherited(3) by auto
  show ?thesis
    by (simp add: store_Inr n p m k)
qed

lemma registerResourcePath_stores:
  assumes "\<not> inherited resourceId" and "\<not> inherited (or_default (ops_name ops) ''index'')"
    and "\<not> inherited (or_default (ops_parent ops) ''all'')"
    and "\<not> inherited (method_key (ops_method ops))"
  shows "((\<exists>t'. registerResourcePath t resourceId ops callbacks = Inr t') \<longleftrightarrow>
            preconditions t resourceId ops callbacks)
     \<and> (\<forall>t'. registerResourcePath t resourceId ops callbacks = Inr t' \<longrightarrow>
          resources t' = resources t \<and> root t' = root t \<and> root_builtin t' = root_builtin t
          \<and> (\<forall>r n p m. entry (paths t') r n p m =
               (if r = resourceId \<and> n = or_default (ops_name ops) ''index''
                   \<and> p = or_default (ops_parent ops) ''all'' \<and> m = method_key (ops_method ops)
                then Some callbacks else entry (paths t) r n p m)))"
  using store_plain [OF assms, of "paths t" callbacks]
  by (auto simp: registerResourcePath_Inr store_entry)

text \<open>
  Claim C5, at a resource id that was never registered and is the name of an
  inherited member. On the small site \<open>constructor\<close> is no resource type, yet
  \<open>checkResource\<close> passes for it, since the registry inherits a member of that
  name. \<open>registerResourcePath\<close> therefore raises no error: it goes on with the
  inherited function \<open>Object\<close> in place of the bucket of the resource, and the
  code writes the path into that function.
\<close>

theorem registerResourcePath_inherited_id:
  "resources site ''constructor'' = None
   \<and> checkResource site ''constructor'' = Inr ()
   \<and> registerResourcePath site ''constructor'' no_ops [Fn []] = Inl (Builtin ''constructor'')"
  by (simp add: registerResourcePath_def store_def checkResource_def bucket_def site_read
      site_root site_resources site_paths read_def is_inherited no_ops_def)




text \<open>
  A path registered with a parent and a method is found again under the same
  options.
\<close>

lemma registered_path_found:
  assumes "registerResourcePath t resourceId ops callbacks = Inr t'"
    and "truthy (ops_parent ops)" and "truthy (ops_method ops)"
  shows "getResourcePath t' resourceId ops = Inr (Some callbacks)"
proof -
  from assms(3) obtain m where m: "ops_method ops = Str m" "m \<noteq> []"
    by (cases "ops_method ops") auto
  from assms(2) have p: "or_default (ops_parent ops) ''all'' = prop_key (ops_parent ops)"
    by (simp add: or_default_def)
  from assms(1) obtain names parents methods where
    t': "t' = t\<lparr>paths := (paths t)(resourceId \<mapsto>
           names(or_default (ops_name ops) ''index'' \<mapsto>
             parents(prop_key (ops_parent ops) \<mapsto>
               methods(map lower_char m \<mapsto> callbacks))))\<rparr>"
    by (auto simp: registerResourcePath_Inr store_Inr p m method_key_def)
  show ?thesis
    by (simp add: t' getResourcePath_def read_own m)
qed

section \<open>Properties of the registry\<close>

lemma root_perform:
  "root t = None \<and> root_builtin t = None \<Longrightarrow> \<not> is_SetRootResource c \<Longrightarrow>
     root (perform c t) = None \<and> root_builtin (perform c t) = None"
  by (cases c) (auto simp: registerResource_def registerResourcePath_Inr clear_def
      split: sum.splits if_splits)

lemma root_perform_all:
  "root t = None \<and> root_builtin t = None \<Longrightarrow> \<forall>c \<in> set cs. \<not> is_SetRootResource c \<Longrightarrow>
     root (perform_all cs t) = None \<and> root_builtin (perform_all cs t) = None"
  unfolding perform_all_def
proof (induction cs arbitrary: t)
  case Nil
  then show ?case by simp
next
  case (Cons c cs)
  from Cons.prems have "root (perform c t) = None \<and> root_builtin (perform c t) = None"
    by (simp add: root_perform)
  from Cons.IH [OF this] Cons.prems(2) show ?case by simp
qed

lemma setRootResource_root:
  "setRootResource t ident = Inr t' \<Longrightarrow> \<not> (root t' = None \<and> root_builtin t' = None)"
  by (auto simp: setRootResource_def checkResource_def split: property.splits)

text \<open>
  Claim C10. \<open>clear\<close> empties the registry and the path table and also unsets the
  root. After it, whatever calls follow, as long as none of them is
  \<open>setRootResource\<close>, every \<open>registerResourcePath\<close> fails with \<open>RootNotSet\<close>; once a
  call of \<open>setRootResource\<close> has succeeded, \<open>registerResourcePath\<close> no longer fails
  with that error.
\<close>

theorem clear_unsets_root:
  "resources (clear t) = Map.empty \<and> paths (clear t) = Map.empty \<and> root (clear t) = None
   \<and> ((\<forall>c \<in> set cs. \<not> is_SetRootResource c) \<longrightarrow>
        registerResourcePath (perform_all cs (clear t)) resourceId ops callbacks = Inl RootNotSet)
   \<and> (setRootResource (perform_all cs (clear t)) ident = Inr t' \<longrightarrow>
        registerResourcePath t' resourceId ops callbacks \<noteq> Inl RootNotSet)"
proof -
  have c: "root (clear t) = None \<and> root_builtin (clear t) = None" by (simp add: clear_def)
  have "(\<forall>c \<in> set cs. \<not> is_SetRootResource c) \<Longrightarrow>
      registerResourcePath (perform_all cs (clear t)) resourceId ops callbacks = Inl RootNotSet"
    using root_perform_all [OF c] by (simp add: registerResourcePath_RootNotSet)
  moreover have "setRootResource (perform_all cs (clear t)) ident = Inr t' \<Longrightarrow>
      registerResourcePath t' resourceId ops callbacks \<noteq> Inl RootNotSet"
    using setRootResource_root [of "perform_all cs (clear t)" ident t']
    by (simp add: registerResourcePath_RootNotSet)
  ultimately show ?thesis by (simp add: clear_def)
qed

theorem clear_unsets_root_witness:
  "registerResourcePath
     (perform_all [RegisterResource ''user'' plain, RegisterResourcePath ''user'' no_ops [Fn []]]
        (clear site))
     ''user'' no_ops [Fn []] = Inl RootNotSet
   \<and> (\<exists>t'. setRootResource
              (perform_all [RegisterResource ''user'' plain, RegisterResourcePath ''user'' no_ops [Fn []]]
                 (clear site)) ''user'' = Inr t'
          \<and> registerResourcePath t' ''user'' no_ops [Fn []] \<noteq> Inl RootNotSet)"
proof -
  let ?cs = "[RegisterResource ''user'' plain, RegisterResourcePath ''user'' no_ops [Fn []]]
    :: (string, string) call list"
  let ?t = "(clear site)\<lparr>resources := (resources (clear site))(''user'' \<mapsto> Factory ''user'' plain)\<rparr>"
  have no_set: "\<forall>c \<in> set ?cs. \<not> is_SetRootResource c"
    by simp
  have r: "registerResource (clear site) ''user'' plain = Inr ?t"
    by (simp add: registerResource_def)
  have "registerResourcePath ?t ''user'' no_ops [Fn []] = Inl RootNotSet"
    by (simp add: registerResourcePath_RootNotSet clear_def)
  with r have "perform_all ?cs (clear site) = ?t"
    by (simp add: perform_all_def)
  then have reg: "read (resources (perform_all ?cs (clear site))) ''user'' = Own (Factory ''user'' plain)"
    by (simp add: read_def)
  then obtain t' where t': "setRootResource (perform_all ?cs (clear site)) ''user'' = Inr t'"
    by (simp add: setRootResource_def checkResource_def)
  show ?thesis
    using no_set t'
      clear_unsets_root [of site ?cs "''user''" no_ops "[Fn []]" "''user''" t']
    by blast
qed

text \<open>
  For an id that the registry neither has nor inherits, \<open>initResource\<close> returns
  \<open>null\<close> and raises nothing, while every other place that looks a resource id
  up in the registry raises \<open>NotRegistered\<close> through \<open>checkResource\<close>:
  \<open>setRootResource\<close>, \<open>registerResourcePath\<close> for the resource and for a given
  parent, and \<open>get\<close> for an id found under \<open>children\<close> and for the id \<open>child\<close>.
\<close>

lemma initResource_silent:
  assumes u: "resources t ident = None" and n: "\<not> inherited ident"
  shows "initResource t ident k p opts = Inr Returned_null"
    and "setRootResource t ident = Inl (NotRegistered ident)"
    and "\<not> (root t = None \<and> root_builtin t = None) \<Longrightarrow>
          registerResourcePath t ident ops callbacks = Inl (NotRegistered ident)"
    and "\<not> (root t = None \<and> root_builtin t = None) \<Longrightarrow> read (resources t) resourceId \<noteq> Missing \<Longrightarrow>
          ops_parent ops = Str ident \<Longrightarrow> ident \<noteq> [] \<Longrightarrow>
          registerResourcePath t resourceId ops callbacks = Inl (NotRegistered ident)"
    and "children this = Some m \<Longrightarrow> m seg = Some ident \<Longrightarrow> ident \<noteq> [] \<Longrightarrow>
          get t this seg = Inl (NotRegistered ident)"
    and "children_at this seg = None \<Longrightarrow> child this = Some ident \<Longrightarrow> ident \<noteq> [] \<Longrightarrow>
          childValidate this seg \<Longrightarrow> get t this seg = Inl (NotRegistered ident)"
proof -
  from u n have r: "read (resources t) ident = Missing"
    by (simp add: read_def)
  show "initResource t ident k p opts = Inr Returned_null"
    by (simp add: initResource_def new_or_null_def r)
  show "setRootResource t ident = Inl (NotRegistered ident)"
    by (simp add: setRootResource_def checkResource_def r)
  show "registerResourcePath t ident ops callbacks = Inl (NotRegistered ident)"
    if "\<not> (root t = None \<and> root_builtin t = None)"
    using that r by (simp add: registerResourcePath_NotRegistered)
  show "registerResourcePath t resourceId ops callbacks = Inl (NotRegistered ident)"
    if "\<not> (root t = None \<and> root_builtin t = None)" "read (resources t) resourceId \<noteq> Missing"
      "ops_parent ops = Str ident" "ident \<noteq> []"
    using that r by (simp add: registerResourcePath_NotRegistered)
  show "get t this seg = Inl (NotRegistered ident)"
    if "children this = Some m" "m seg = Some ident" "ident \<noteq> []"
    using that r by (simp add: get_def children_at_def read_own checkResource_def)
  show "get t this seg = Inl (NotRegistered ident)"
    if "children_at this seg = None" "child this = Some ident" "ident \<noteq> []" "childValidate this seg"
    using that r by (simp add: get_def child_for_def checkResource_def)
qed

text \<open>
  Claim C9, at two ids that were never registered and are names of inherited
  members. On the small site neither \<open>toString\<close> nor \<open>constructor\<close> is a
  resource type. For \<open>toString\<close> \<open>initResource\<close> raises \<open>TypeError\<close> instead of
  returning \<open>null\<close>: the registry finds the inherited method, which is no
  constructor. For \<open>constructor\<close> it finds the function \<open>Object\<close> and returns the
  \<open>String\<close> object that \<open>new Object\<close> makes of the key, not \<open>null\<close>. And
  \<open>setRootResource\<close> does not fail for \<open>constructor\<close>: \<open>checkResource\<close> passes,
  and the root becomes the inherited member.
\<close>

theorem initResource_inherited_id:
  "resources site ''toString'' = None \<and> resources site ''constructor'' = None
   \<and> initResource site ''toString'' (Some ''7'') (Some root_inst) None = Inl TypeError
   \<and> initResource site ''constructor'' (Some ''7'') (Some root_inst) None
        = Inr (Object_of (Some ''7''))
   \<and> setRootResource site ''constructor''
        = Inr (site\<lparr>root := None, root_builtin := Some ''constructor''\<rparr>)"
  by (simp add: initResource_def new_or_null_def setRootResource_def checkResource_def
      site_read site_resources)

section \<open>Properties of instances\<close>

text \<open>
  \<open>get\<close> resolves a segment in this order: an id that \<open>children\<close> holds of its
  own under the segment is taken first; failing that, and where the segment is no
  name of an inherited member, the id \<open>child\<close> when \<open>childValidate\<close> accepts the
  segment; otherwise the result is \<open>null\<close>. (As everywhere in the code, an empty
  id counts as none.) Resolving an id gives a new instance of the type registered
  under it, with the segment as key and the instance asked as parent; an id that
  the registry neither has nor inherits raises instead.
\<close>

lemma get_resolution_order:
  "(children this = Some m \<and> m seg = Some c \<and> c \<noteq> [] \<longrightarrow>
      get t this seg =
        (case read (resources t) c of
           Missing \<Rightarrow> Inl (NotRegistered c)
         | Own f \<Rightarrow> Inr (Some (new_obj f (Some seg) (Some this) None))
         | Inherited n \<Rightarrow> if n = ''constructor'' then Inl (Builtin n) else Inl TypeError))
   \<and> (children_at this seg = None \<and> child this = Some c \<and> c \<noteq> [] \<and> childValidate this seg \<longrightarrow>
      get t this seg =
        (case read (resources t) c of
           Missing \<Rightarrow> Inl (NotRegistered c)
         | Own f \<Rightarrow> Inr (Some (new_obj f (Some seg) (Some this) None))
         | Inherited n \<Rightarrow> if n = ''constructor'' then Inl (Builtin n) else Inl TypeError))
   \<and> (children_at this seg = None \<and> child_for this seg = None \<longrightarrow> get t this seg = Inr None)"
  by (simp add: get_def children_at_def child_for_def checkResource_def read_own new_or_null_def
      split: property.splits)

text \<open>
  For a segment that is the name of an inherited member, on an instance with a
  \<open>children\<close> object that has no property of its own under it, \<open>get\<close> takes the
  inherited member for the id: it raises \<open>NotRegistered\<close> with the text of the
  member, unless a resource type happens to be registered under that text.
\<close>

lemma get_inherited:
  "children this = Some m \<Longrightarrow> m seg = None \<Longrightarrow> inherited seg \<Longrightarrow>
     get t this seg =
       (case resources t (member_text seg) of
          None \<Rightarrow> Inl (NotRegistered (member_text seg))
        | Some f \<Rightarrow> Inr (Some (new_obj f (Some seg) (Some this) None)))"
  by (auto simp: get_def children_at_def checkResource_def read_def new_or_null_def member_text_def
      inherited_def inherited_names_def split: option.splits)

text \<open>
  Claim C2, at a segment that is the name of an inherited member. The root of the
  small site declares the one child \<open>users\<close> and no dynamic child, so by the
  claim \<open>get\<close> answers \<open>toString\<close> with \<open>null\<close>. The \<open>children\<close> object
  inherits a method of that name, which \<open>get\<close> takes for an id, and
  \<open>checkResource\<close> raises.
\<close>

theorem get_inherited_segment:
  "children root_inst = Some [''users'' \<mapsto> ''users''] \<and> child root_inst = None
   \<and> get site root_inst ''toString''
        = Inl (NotRegistered ''function toString() { [native code] }'')"
  by (simp add: get_def children_at_def checkResource_def read_def is_inherited not_inherited
      member_text_def site_resources root_inst_eq)

text \<open>
  An empty id under \<open>children\<close> is no entry for \<open>get\<close>: the segment goes on to the
  dynamic child.
\<close>

lemma get_empty_id:
  "children this = Some m \<Longrightarrow> m seg = Some [] \<Longrightarrow> child_for this seg = Some c \<Longrightarrow>
     resources t c = Some f \<Longrightarrow>
     get t this seg = Inr (Some (new_obj f (Some seg) (Some this) None))"
  "children this = Some m \<Longrightarrow> m seg = Some [] \<Longrightarrow> child_for this seg = None \<Longrightarrow>
     get t this seg = Inr None"
  by (simp_all add: get_def children_at_def read_own checkResource_def new_or_null_def)

lemma get_Some:
  "get t this seg = Inr (Some x) \<Longrightarrow>
     \<exists>c f. (children_at this seg = Some c \<or> children_at this seg = None \<and> child_for this seg = Some c)
        \<and> resources t c = Some f \<and> x = new_obj f (Some seg) (Some this) None"
  by (auto simp: get_def checkResource_def new_or_null_def read_def Let_def
      split: option.splits sum.splits if_splits property.splits made.splits)

text \<open>
  Claim C6. Every instance that \<open>get\<close> returns was made by the factory registered
  under the id the segment resolved to, from the segment and the instance asked: the constructor set \<open>key\<close> to the
  segment and \<open>parent\<close> to that instance, and the result is what the hook \<open>init\<close>
  of the factory, applied once to the instance so constructed, left behind. So
  \<open>init\<close> finds \<open>this.key\<close> and \<open>this.parent\<close> set.
\<close>

theorem get_constructs_then_inits:
  "get t this seg = Inr (Some x) \<longrightarrow>
     (\<exists>c f fresh.
        (children_at this seg = Some c \<or> children_at this seg = None \<and> child_for this seg = Some c)
        \<and> resources t c = Some f
        \<and> resource fresh = factory_id f \<and> key fresh = Some seg \<and> parent fresh = Some this
        \<and> options fresh = None
        \<and> x = init_of f fresh)"
proof
  assume "get t this seg = Inr (Some x)"
  from get_Some [OF this] obtain c f where
    c: "children_at this seg = Some c \<or> children_at this seg = None \<and> child_for this seg = Some c"
    and f: "resources t c = Some f" and x: "x = new_obj f (Some seg) (Some this) None"
    by blast
  let ?fresh = "Resource (Inst (factory_id f) None None None
            (children (blank f)) (child (blank f)) (childValidate (blank f))) (Some seg) (Some this) None"
  have "resource ?fresh = factory_id f \<and> key ?fresh = Some seg \<and> parent ?fresh = Some this
        \<and> options ?fresh = None \<and> x = init_of f ?fresh"
    by (simp add: x new_obj_def Resource_def)
  with c f show "\<exists>c f fresh.
        (children_at this seg = Some c \<or> children_at this seg = None \<and> child_for this seg = Some c)
        \<and> resources t c = Some f
        \<and> resource fresh = factory_id f \<and> key fresh = Some seg \<and> parent fresh = Some this
        \<and> options fresh = None
        \<and> x = init_of f fresh"
    by blast
qed


theorem get_constructs_then_inits_witness:
  "get site users_inst ''42'' = Inr (Some user_inst)
   \<and> (\<exists>c f fresh.
         (children_at users_inst ''42'' = Some c
          \<or> children_at users_inst ''42'' = None \<and> child_for users_inst ''42'' = Some c)
         \<and> resources site c = Some f
         \<and> resource fresh = factory_id f \<and> key fresh = Some ''42''
         \<and> parent fresh = Some users_inst \<and> options fresh = None
         \<and> user_inst = init_of f fresh)
   \<and> options user_inst = Some ''users:42''"
proof -
  have g: "get site users_inst ''42'' = Inr (Some user_inst)"
    by (simp add: get_def children_at_def child_for_def checkResource_def new_or_null_def
        users_inst_eq numeric_def site_read user_inst_def)
  have o: "options user_inst = Some ''users:42''"
    by (simp add: user_inst_eq)
  show ?thesis
    using g o get_constructs_then_inits [where t = site and this = users_inst
        and seg = "''42''" and x = user_inst]
    by blast
qed

text \<open>
  \<open>traverseTo\<close> on an instance with a parent: the first instance of the parent
  chain whose type is the one asked for, or \<open>null\<close> when there is none.
\<close>

declare ancestors.simps [simp del]

lemma traverseTo_rec_find:
  "traverseTo_rec resourceId (Some r) = Inr (find (\<lambda>a. resource a = resourceId) (r # ancestors r))"
proof (induction r rule: ancestors.induct)
  case (1 r)
  show ?case
  proof (cases "parent r")
    case None
    then show ?thesis by (simp add: ancestors.simps [of r])
  next
    case (Some p)
    with 1 [OF Some] show ?thesis by (simp add: ancestors.simps [of r])
  qed
qed

lemma traverseTo_with_parent:
  "parent this = Some p \<Longrightarrow>
     traverseTo this resourceId = Inr (find (\<lambda>a. resource a = resourceId) (ancestors this))"
  by (simp add: traverseTo_def traverseTo_rec_find ancestors.simps [of this] del: traverseTo_rec.simps)

lemma traverseTo_without_parent:
  "parent this = None \<Longrightarrow> traverseTo this resourceId = Inl TypeError"
  by (simp add: traverseTo_def)

text \<open>
  Claim C7, at the root instance of the site: it has no parent, and \<open>traverseTo\<close>
  raises instead of returning \<open>null\<close>.
\<close>

theorem traverseTo_root_raises:
  "traverseTo root_inst ''users'' = Inl TypeError"
  by (simp add: traverseTo_def root_inst_eq)

section \<open>Properties of the chain builder\<close>

lemma js_split_not_Nil: "js_split u c \<noteq> []"
  by (induction u) (auto split: list.splits)

lemma js_split_no_sep: "\<forall>w \<in> set (js_split u c). c \<notin> set w"
  by (induction u) (auto split: list.splits)

lemma js_split_concat: "concat (js_split u c) = filter (\<lambda>x. x \<noteq> c) u"
  by (induction u) (auto split: list.splits)

lemma segments_nonempty: "\<forall>s \<in> set (segments u). s \<noteq> [] \<and> CHR ''/'' \<notin> set s"
  using js_split_no_sep [of u "CHR ''/''"] by (auto simp: segments_def)

lemma concat_nonempty: "concat (filter (\<lambda>el. el \<noteq> []) xs) = concat xs"
  by (induction xs) auto

lemma segments_concat: "concat (segments u) = filter (\<lambda>c. c \<noteq> CHR ''/'') u"
  by (simp add: segments_def concat_nonempty js_split_concat)

lemma build_descends:
  "descends t r pre cur \<Longrightarrow> \<forall>s \<in> set pre. s \<noteq> [] \<Longrightarrow>
     build t r (pre @ rest) req = build t cur rest req"
  by (induction rule: descends.induct) auto

lemma build_all:
  "descends t r segs leaf \<Longrightarrow> \<forall>s \<in> set segs. s \<noteq> [] \<Longrightarrow> build t r segs req = Inr (leaf, req)"
  using build_descends [of t r segs leaf "[]" req] by simp

lemma build_stop:
  "\<forall>s \<in> set pre. s \<noteq> [] \<Longrightarrow> s \<noteq> [] \<Longrightarrow> descends t r pre cur \<Longrightarrow> get t cur s = Inr None \<Longrightarrow>
     build t r (pre @ s # rest) req = Inr (cur, req\<lparr>pathname := Some s, subpath := Some rest\<rparr>)"
  by (simp add: build_descends)

lemma build_raise:
  "\<forall>s \<in> set pre. s \<noteq> [] \<Longrightarrow> s \<noteq> [] \<Longrightarrow> descends t r pre cur \<Longrightarrow> get t cur s = Inl e \<Longrightarrow>
     build t r (pre @ s # rest) req = Inl e"
  by (simp add: build_descends)

lemma buildChain_build:
  "root t = Some f \<Longrightarrow>
     buildChain t req = build t (new_obj f None None None) (segments (url req)) req"
  by (simp add: buildChain_def segments_def)

text \<open>
  Claim C1. \<open>buildChain\<close> splits the path on \<open>/\<close> and drops the empty pieces, makes
  the root instance, and resolves the segments from left to right, each with \<open>get\<close>
  on the instance reached so far. When every segment resolves, the result is the
  last instance and the request is left as it was. At the first segment that \<open>get\<close>
  answers with \<open>null\<close> it stops: the result is the instance reached so far, and the
  request holds the unresolved part of the path, that segment (in \<open>pathname\<close>)
  followed by all the segments after it (in \<open>subpath\<close>). An error raised by \<open>get\<close>
  is passed on.
\<close>

theorem buildChain_greedy:
  "(\<forall>s \<in> set (segments (url req)). s \<noteq> [] \<and> CHR ''/'' \<notin> set s)
   \<and> concat (segments (url req)) = filter (\<lambda>c. c \<noteq> CHR ''/'') (url req)
   \<and> (root t = Some f \<longrightarrow>
     (\<forall>leaf. descends t (new_obj f None None None) (segments (url req)) leaf \<longrightarrow>
        buildChain t req = Inr (leaf, req))
     \<and> (\<forall>pre s rest cur.
          segments (url req) = pre @ s # rest \<and> descends t (new_obj f None None None) pre cur
          \<and> get t cur s = Inr None \<longrightarrow>
          buildChain t req = Inr (cur, req\<lparr>pathname := Some s, subpath := Some rest\<rparr>)
          \<and> unresolved (req\<lparr>pathname := Some s, subpath := Some rest\<rparr>) = s # rest)
     \<and> (\<forall>pre s rest cur e.
          segments (url req) = pre @ s # rest \<and> descends t (new_obj f None None None) pre cur
          \<and> get t cur s = Inl e \<longrightarrow>
          buildChain t req = Inl e))"
proof (intro impI conjI allI)
  note ne = segments_nonempty [of "url req"]
  show "\<forall>s \<in> set (segments (url req)). s \<noteq> [] \<and> CHR ''/'' \<notin> set s"
    by (rule ne)
  show "concat (segments (url req)) = filter (\<lambda>c. c \<noteq> CHR ''/'') (url req)"
    by (rule segments_concat)
  assume f: "root t = Some f"
  show "buildChain t req = Inr (leaf, req)"
    if "descends t (new_obj f None None None) (segments (url req)) leaf" for leaf
    using that ne f by (simp add: buildChain_build build_all)
  show "buildChain t req = Inr (cur, req\<lparr>pathname := Some s, subpath := Some rest\<rparr>)"
    if h: "segments (url req) = pre @ s # rest \<and> descends t (new_obj f None None None) pre cur
          \<and> get t cur s = Inr None" for pre s rest cur
  proof -
    from h ne have "\<forall>x \<in> set pre. x \<noteq> []" "s \<noteq> []" by auto
    moreover from h have "descends t (new_obj f None None None) pre cur" "get t cur s = Inr None"
      by simp_all
    ultimately have "build t (new_obj f None None None) (pre @ s # rest) req
        = Inr (cur, req\<lparr>pathname := Some s, subpath := Some rest\<rparr>)"
      by (rule build_stop)
    with h f show ?thesis by (simp add: buildChain_build)
  qed
  show "unresolved (req\<lparr>pathname := Some s, subpath := Some rest\<rparr>) = s # rest" for s rest
    by (simp add: unresolved_def)
  show "buildChain t req = Inl e"
    if h: "segments (url req) = pre @ s # rest \<and> descends t (new_obj f None None None) pre cur
          \<and> get t cur s = Inl e" for pre s rest cur e
  proof -
    from h ne have "\<forall>x \<in> set pre. x \<noteq> []" "s \<noteq> []" by auto
    moreover from h have "descends t (new_obj f None None None) pre cur" "get t cur s = Inl e"
      by simp_all
    ultimately have "build t (new_obj f None None None) (pre @ s # rest) req = Inl e"
      by (rule build_raise)
    with h f show ?thesis by (simp add: buildChain_build)
  qed
qed


theorem buildChain_greedy_witness:
  "buildChain site (get_req ''/users/42/edit'')
     = Inr (user_inst, (get_req ''/users/42/edit'')\<lparr>pathname := Some ''edit'', subpath := Some []\<rparr>)
   \<and> unresolved ((get_req ''/users/42/edit'')\<lparr>pathname := Some ''edit'', subpath := Some []\<rparr>)
       = [''edit'']
   \<and> buildChain site (get_req ''users//42/'') = Inr (user_inst, get_req ''users//42/'')
   \<and> buildChain dangling (get_req ''/projects/7'') = Inl (NotRegistered ''project'')"
proof -
  let ?f = "Factory ''root'' (plain\<lparr>proto_children := Some [''projects'' \<mapsto> ''project'']\<rparr>)
    :: string factory"
  have r3: "root dangling = Some ?f"
    by (simp add: dangling_eq)
  have s3: "segments (url (get_req ''/projects/7'')) = [] @ ''projects'' # [''7'']"
    by (simp add: segments_def get_req_def)
  have d3: "descends dangling (new_obj ?f None None None) [] (new_obj ?f None None None)"
    by (rule descends.here)
  have 3: "buildChain dangling (get_req ''/projects/7'') = Inl (NotRegistered ''project'')"
    using buildChain_greedy [where t = dangling and f = ?f and req = "get_req ''/projects/7''"]
      r3 s3 d3 dangling_get
    by blast
  have s1: "segments (url (get_req ''/users/42/edit'')) = [''users'', ''42''] @ ''edit'' # []"
    by (simp add: segments_def get_req_def)
  have s2: "segments (url (get_req ''users//42/'')) = [''users'', ''42'']"
    by (simp add: segments_def get_req_def)
  have d: "descends site (new_obj (Factory ''root'' root_proto) None None None) [''users'', ''42'']
      user_inst"
    using site_descends by (simp add: root_inst_def)
  note g = buildChain_greedy [where t = site and f = "Factory ''root'' root_proto"]
  have 1: "buildChain site (get_req ''/users/42/edit'')
     = Inr (user_inst, (get_req ''/users/42/edit'')\<lparr>pathname := Some ''edit'', subpath := Some []\<rparr>)
   \<and> unresolved ((get_req ''/users/42/edit'')\<lparr>pathname := Some ''edit'', subpath := Some []\<rparr>)
       = [''edit'']"
    using g [where req = "get_req ''/users/42/edit''"] s1 d site_get_edit site_root
    by blast
  have 2: "buildChain site (get_req ''users//42/'') = Inr (user_inst, get_req ''users//42/'')"
    using g [where req = "get_req ''users//42/''"] s2 d site_root
    by simp
  show ?thesis using 1 2 3 by blast
qed

section \<open>Properties of the URL builder\<close>

lemma js_split_whole: "c \<notin> set x \<Longrightarrow> js_split x c = [x]"
  by (induction x) auto

lemma js_split_append: "c \<notin> set x \<Longrightarrow> js_split (x @ c # rest) c = x # js_split rest c"
  by (induction x) auto

lemma js_split_join:
  "\<forall>s \<in> set segs. s \<noteq> [] \<and> c \<notin> set s \<Longrightarrow>
     filter (\<lambda>el. el \<noteq> []) (js_split (js_join segs [c]) c) = segs"
  by (induction segs "[c]" rule: js_join.induct) (auto simp: js_split_whole js_split_append)

lemma segments_join:
  "\<forall>s \<in> set segs. s \<noteq> [] \<and> CHR ''/'' \<notin> set s \<Longrightarrow>
     segments (CHR ''/'' # js_join segs ''/'') = segs"
  using js_split_join [of segs "CHR ''/''"] by (simp add: segments_def)

declare getKeyAndParent.simps [simp del]

lemma getKeyAndParent_child:
  "key r1 = Some s \<Longrightarrow> s \<noteq> [] \<Longrightarrow> parent r1 = Some r \<Longrightarrow>
     getKeyAndParent r1 parts = getKeyAndParent r (s # parts)"
  by (simp add: getKeyAndParent.simps [of r1])

lemma getKeyAndParent_top:
  "key r = None \<Longrightarrow> parent r = None \<Longrightarrow> getKeyAndParent r parts = parts"
  by (simp add: getKeyAndParent.simps [of r])

lemma get_key_parent:
  assumes "get t r s = Inr (Some r1)" and "\<forall>g \<in> ran (resources t). keeps_key_parent g"
  shows "key r1 = Some s \<and> parent r1 = Some r"
proof -
  from get_Some [OF assms(1)] obtain c f where
    f: "resources t c = Some f" and r1: "r1 = new_obj f (Some s) (Some r) None"
    by blast
  from f assms(2) have "keeps_key_parent f"
    by (auto simp: ran_def)
  then show ?thesis
    by (simp add: r1 new_obj_def Resource_def keeps_key_parent_def)
qed

lemma descends_keys:
  "descends t r segs leaf \<Longrightarrow> \<forall>g \<in> ran (resources t). keeps_key_parent g \<Longrightarrow>
     \<forall>s \<in> set segs. s \<noteq> [] \<Longrightarrow>
     getKeyAndParent leaf parts = getKeyAndParent r (segs @ parts)"
proof (induction arbitrary: parts rule: descends.induct)
  case (here t r)
  show ?case by simp
next
  case (step t r s r1 ss r2)
  from get_key_parent [OF step.hyps(1) step.prems(1)]
  have k: "key r1 = Some s" "parent r1 = Some r" by simp_all
  from step.prems(2) have s: "s \<noteq> []" by simp
  have "getKeyAndParent r2 parts = getKeyAndParent r1 (ss @ parts)"
    using step.IH step.prems by simp
  also have "\<dots> = getKeyAndParent r (s # ss @ parts)"
    using k s by (simp add: getKeyAndParent_child)
  finally show ?case by simp
qed

text \<open>
  Claim C8. For a path \<open>/s1/.../sn\<close> of non-empty segments, on a site whose \<open>init\<close>
  hooks leave \<open>key\<close> and \<open>parent\<close> alone and where every segment resolves,
  \<open>buildChain\<close> returns the leaf and \<open>buildResourceUrl\<close> of the leaf is the path
  again.
\<close>

theorem url_round_trip:
  "root t = Some f \<and> keeps_key_parent f \<and> (\<forall>g \<in> ran (resources t). keeps_key_parent g)
   \<and> (\<forall>s \<in> set segs. s \<noteq> [] \<and> CHR ''/'' \<notin> set s)
   \<and> url req = CHR ''/'' # js_join segs ''/''
   \<and> descends t (new_obj f None None None) segs leaf
   \<longrightarrow> buildChain t req = Inr (leaf, req) \<and> buildResourceUrl leaf Undefined = url req"
proof
  assume h: "root t = Some f \<and> keeps_key_parent f \<and> (\<forall>g \<in> ran (resources t). keeps_key_parent g)
   \<and> (\<forall>s \<in> set segs. s \<noteq> [] \<and> CHR ''/'' \<notin> set s)
   \<and> url req = CHR ''/'' # js_join segs ''/''
   \<and> descends t (new_obj f None None None) segs leaf"
  let ?r0 = "new_obj f None None None"
  from h have segs: "segments (url req) = segs"
    by (simp add: segments_join)
  from h have ne: "\<forall>s \<in> set segs. s \<noteq> []" by simp
  from h have d: "descends t ?r0 segs leaf" by simp
  from h have top: "key ?r0 = None" "parent ?r0 = None"
    by (simp_all add: new_obj_def Resource_def keeps_key_parent_def)
  from h have all: "\<forall>g \<in> ran (resources t). keeps_key_parent g" by simp
  have "buildChain t req = build t ?r0 segs req"
    using h segs by (simp add: buildChain_build)
  also have "\<dots> = Inr (leaf, req)"
    using d ne by (rule build_all)
  finally have 1: "buildChain t req = Inr (leaf, req)" .
  have "getKeyAndParent leaf [] = getKeyAndParent ?r0 (segs @ [])"
    using d all ne by (rule descends_keys)
  also have "\<dots> = segs"
    using top by (simp add: getKeyAndParent_top)
  finally have "buildResourceUrl leaf Undefined = CHR ''/'' # js_join segs ''/''"
    by (simp add: buildResourceUrl_def)
  with h 1 show "buildChain t req = Inr (leaf, req) \<and> buildResourceUrl leaf Undefined = url req"
    by simp
qed

theorem url_round_trip_witness:
  "buildChain site (get_req ''/users/42'') = Inr (user_inst, get_req ''/users/42'')
   \<and> buildResourceUrl user_inst Undefined = ''/users/42''"
proof -
  have u: "url (get_req ''/users/42'') = CHR ''/'' # js_join [''users'', ''42''] ''/''"
    by (simp add: get_req_def)
  have ne: "\<forall>s \<in> set [''users'', ''42'']. s \<noteq> [] \<and> CHR ''/'' \<notin> set s"
    by simp
  have d: "descends site (new_obj (Factory ''root'' root_proto) None None None) [''users'', ''42'']
      user_inst"
    using site_descends by (simp add: root_inst_def)
  have "buildChain site (get_req ''/users/42'') = Inr (user_inst, get_req ''/users/42'')
      \<and> buildResourceUrl user_inst Undefined = url (get_req ''/users/42'')"
    using url_round_trip [where t = site and f = "Factory ''root'' root_proto"
        and segs = "[''users'', ''42'']" and req = "get_req ''/users/42''" and leaf = user_inst]
      site_root site_keeps u ne d
    by blast
  then show ?thesis by (simp add: get_req_def)
qed

section \<open>Properties of the middleware\<close>

text \<open>
  A run of \<open>_callback\<close> ends when the bound exceeds the number of handlers left:
  each call moves the counter on, and a call beyond the array raises.
\<close>

lemma run_total:
  "- 1 \<le> i s \<Longrightarrow> i s < int (length hs) \<Longrightarrow> int (length hs) \<le> int n + i s \<Longrightarrow>
     \<exists>e s'. run_handler n hs k acts s = Some (e, s') \<and> i s \<le> i s'
        \<and> (e = None \<longrightarrow> i s' < int (length hs))"
  "- 1 \<le> i s \<Longrightarrow> i s < int (length hs) \<Longrightarrow> int (length hs) \<le> int n + i s \<Longrightarrow>
     \<exists>e s'. callback_rec n hs s = Some (e, s') \<and> i s < i s'
        \<and> (e = None \<longrightarrow> i s' < int (length hs))"
proof (induction n hs k acts s and n hs s rule: run_handler_callback_rec.induct)
  case (1 n callbacks k s)
  then show ?case by simp
next
  case (2 n callbacks k e acts s)
  then show ?case by simp
next
  case (3 n callbacks acts s)
  then show ?case by simp
next
  case (4 n callbacks acts s)
  from 4(1) [OF 4(3-5)] obtain e s' where
    c: "callback_rec n callbacks s = Some (e, s')" "i s < i s'"
       "e = None \<longrightarrow> i s' < int (length callbacks)"
    by blast
  show ?case
  proof (cases e)
    case None
    with c 4(3-5) have p: "- 1 \<le> i s'" "i s' < int (length callbacks)"
      "int (length callbacks) \<le> int n + i s'" by auto
    from c None have "callback_rec n callbacks s = Some (None, s')" by simp
    from 4(2) [OF this refl refl p] c None show ?thesis
      by auto
  next
    case (Some a)
    with c show ?thesis by simp
  qed
next
  case (5 callbacks s)
  then show ?case by simp
next
  case (6 n callbacks s)
  let ?s1 = "s\<lparr>i := i s + 1\<rparr>"
  let ?k = "if i ?s1 + 1 = int (length callbacks) then External else Internal"
  show ?case
  proof (cases "nat (i ?s1) < length callbacks")
    case inside: True
    show ?thesis
    proof (cases "callbacks ! nat (i ?s1)")
      case (Fn body)
      have r: "0 \<le> i ?s1 \<and> nat (i ?s1) < length callbacks"
        using inside 6(2) by simp
      let ?s2 = "?s1\<lparr>trace := trace ?s1 @ [Called (nat (i ?s1)) ?k]\<rparr>"
      have p: "- 1 \<le> i ?s2" "i ?s2 < int (length callbacks)"
        "int (length callbacks) \<le> int n + i ?s2"
        using inside 6(2,4) by auto
      from 6(1) [OF refl refl r Fn p] obtain e s' where
        "run_handler n callbacks ?k body ?s2 = Some (e, s')" "i ?s2 \<le> i s'"
        "e = None \<longrightarrow> i s' < int (length callbacks)"
        by blast
      with Fn r show ?thesis
        by (auto simp: Let_def)
    next
      case NotFn
      with inside 6(2) show ?thesis by (simp add: Let_def)
    qed
  next
    case False
    then show ?thesis by (simp add: Let_def)
  qed
qed


lemma orderly_Noted: "orderly hs (s\<lparr>trace := trace s @ [Noted e]\<rparr>) = orderly hs s"
  by (simp add: orderly_def calls_def)

lemma orderly_Fallback:
  "orderly hs s \<Longrightarrow> int (length hs) \<le> i s + 1 \<Longrightarrow> orderly hs (s\<lparr>trace := trace s @ [Fallback]\<rparr>)"
  by (simp add: orderly_def calls_def)

lemma orderly_Called:
  assumes "orderly hs s" and "i s = int j - 1" and "j < length hs"
  shows "orderly hs (s\<lparr>i := int j,
     trace := trace s @ [Called j (if Suc j = length hs then External else Internal)]\<rparr>)"
proof -
  from assms(3) have m: "min j (length hs) = j" "min (Suc j) (length hs) = Suc j"
    by auto
  have n: "nat (int j + 1) = Suc j" "nat (int j - 1 + 1) = j"
    by auto
  from assms show ?thesis
    by (simp add: orderly_def calls_def in_order_def m n)
qed

lemma orderly_beyond:
  assumes "orderly hs s" and "i s = int j - 1" and "\<not> j < length hs"
  shows "orderly hs (s\<lparr>i := int j\<rparr>)"
proof -
  from assms(3) have m: "min j (length hs) = length hs" "min (Suc j) (length hs) = length hs"
    by auto
  have n: "nat (int j + 1) = Suc j" "nat (int j - 1 + 1) = j"
    by auto
  from assms show ?thesis
    by (simp add: orderly_def m n)
qed

lemma run_orderly:
  "list_all callable hs \<Longrightarrow> orderly hs s \<Longrightarrow> (k = External \<longrightarrow> int (length hs) \<le> i s + 1) \<Longrightarrow>
     run_handler n hs k acts s = Some (e, s') \<Longrightarrow> orderly hs s'"
  "list_all callable hs \<Longrightarrow> orderly hs s \<Longrightarrow>
     callback_rec n hs s = Some (e, s') \<Longrightarrow> orderly hs s'"
proof (induction n hs k acts s and n hs s arbitrary: e s' and e s'
    rule: run_handler_callback_rec.induct)
  case (1 n callbacks k s)
  then show ?case by simp
next
  case (2 n callbacks k e acts s)
  from 2(1) [OF 2(2)] 2(3-5) show ?case
    by (simp add: orderly_Noted)
next
  case (3 n callbacks acts s)
  from 3(3,4) have "orderly callbacks (s\<lparr>trace := trace s @ [Fallback]\<rparr>)"
    by (simp add: orderly_Fallback)
  from 3(1) [OF 3(2) this] 3(4,5) show ?case
    by simp
next
  case (4 n callbacks acts s)
  from 4(6) obtain e1 s1 where c: "callback_rec n callbacks s = Some (e1, s1)"
    by (auto split: option.splits)
  from 4(1) [OF 4(3,4) c] have o1: "orderly callbacks s1" .
  show ?case
  proof (cases e1)
    case None
    with c have "callback_rec n callbacks s = Some (None, s1)" by simp
    from 4(2) [OF this refl refl 4(3) o1] 4(6) c None show ?thesis
      by simp
  next
    case (Some a)
    with c 4(6) o1 show ?thesis by simp
  qed
next
  case (5 callbacks s)
  then show ?case by simp
next
  case (6 n callbacks s)
  let ?s1 = "s\<lparr>i := i s + 1\<rparr>"
  let ?k = "if i ?s1 + 1 = int (length callbacks) then External else Internal"
  define j where "j = nat (i s + 1)"
  from 6(3) have lo: "- 1 \<le> i s" by (simp add: orderly_def)
  then have j: "i s = int j - 1" "i s + 1 = int j" by (simp_all add: j_def)
  show ?case
  proof (cases "j < length callbacks")
    case inside: True
    have r: "0 \<le> i ?s1 \<and> nat (i ?s1) < length callbacks"
      using inside j by simp
    from 6(2) inside obtain body where Fn: "callbacks ! nat (i ?s1) = Fn body"
      by (cases "callbacks ! j") (auto simp: list_all_length j)
    let ?s2 = "?s1\<lparr>trace := trace ?s1 @ [Called (nat (i ?s1)) ?k]\<rparr>"
    have k: "?k = (if Suc j = length callbacks then External else Internal)"
      using j by auto
    have "?s2 = s\<lparr>i := int j,
        trace := trace s @ [Called j (if Suc j = length callbacks then External else Internal)]\<rparr>"
      unfolding k by (simp add: j)
    with orderly_Called [OF 6(3) j(1) inside] have o2: "orderly callbacks ?s2"
      by simp
    have kk: "?k = External \<longrightarrow> int (length callbacks) \<le> i ?s2 + 1"
      by simp
    from 6(4) Fn r have "run_handler n callbacks ?k body ?s2 = Some (e, s')"
      by (simp add: Let_def)
    from 6(1) [OF refl refl r Fn 6(2) o2 kk this] show ?thesis .
  next
    case False
    with 6(4) j have "s' = s\<lparr>i := int j\<rparr>"
      by (auto simp: Let_def split: if_splits)
    with orderly_beyond [OF 6(3) j(1) False] show ?thesis by simp
  qed
qed


lemma run_notes:
  "run_handler n hs k (map Note xs @ acts) s
     = run_handler n hs k acts (s\<lparr>trace := trace s @ map Noted xs\<rparr>)"
  by (induction xs arbitrary: s) simp_all

lemma run_only_notes:
  "run_handler n hs k (map Note xs) s = Some (None, s\<lparr>trace := trace s @ map Noted xs\<rparr>)"
  using run_notes [of n hs k xs "[]" s] by simp

lemma run_chain:
  "j < length pps \<Longrightarrow> i s = int j - 1 \<Longrightarrow> length pps - j \<le> n \<Longrightarrow>
     callback_rec n (map handler_of pps) s
       = Some (None, s\<lparr>i := int (length pps) - 1,
                        trace := trace s @ chain_trace (length pps) j (drop j pps)\<rparr>)"
proof (induction n arbitrary: j s)
  case 0
  then show ?case by simp
next
  case (Suc n)
  let ?hs = "map handler_of pps"
  let ?k = "if Suc j = length pps then External else Internal"
  let ?s2 = "s\<lparr>i := int j, trace := trace s @ [Called j ?k]\<rparr>"
  let ?s3 = "?s2\<lparr>trace := trace ?s2 @ map Noted (fst (pps ! j))\<rparr>"
  have d: "drop j pps = pps ! j # drop (Suc j) pps"
    using Suc.prems(1) by (simp add: Cons_nth_drop_Suc)
  have k: "(int j + 1 = int (length pps)) = (Suc j = length pps)"
    by auto
  have step: "callback_rec (Suc n) ?hs s
      = run_handler n ?hs ?k (CallNext # map Note (snd (pps ! j))) ?s3"
    using Suc.prems(1,2) by (simp add: Let_def handler_of_def run_notes k)
  show ?case
  proof (cases "Suc j = length pps")
    case True
    then have "drop (Suc j) pps = []" by simp
    with True step d Suc.prems(2) show ?thesis
      by (simp add: run_only_notes)
  next
    case False
    with Suc.prems have p: "Suc j < length pps" "i ?s3 = int (Suc j) - 1" "length pps - Suc j \<le> n"
      by auto
    from Suc.IH [OF p] False step d show ?thesis
      by (simp add: run_only_notes)
  qed
qed

text \<open>A larger bound changes nothing.\<close>

lemma run_mono:
  "run_handler n hs k acts s = Some r \<Longrightarrow> n \<le> m \<Longrightarrow> run_handler m hs k acts s = Some r"
  "callback_rec n hs s = Some r \<Longrightarrow> n \<le> m \<Longrightarrow> callback_rec m hs s = Some r"
proof (induction n hs k acts s and n hs s arbitrary: r m and r m
    rule: run_handler_callback_rec.induct)
  case (1 n callbacks k s)
  from 1(1) show ?case by simp
next
  case (2 n callbacks k e acts s)
  from 2(2) have "run_handler n callbacks k acts (s\<lparr>trace := trace s @ [Noted e]\<rparr>) = Some r"
    by simp
  from 2(1) [OF this 2(3)] show ?case by simp
next
  case (3 n callbacks acts s)
  from 3(2) have "run_handler n callbacks External acts (s\<lparr>trace := trace s @ [Fallback]\<rparr>) = Some r"
    by simp
  from 3(1) [OF this 3(3)] show ?case by simp
next
  case (4 n callbacks acts s)
  from 4(3) obtain e1 s1 where c: "callback_rec n callbacks s = Some (e1, s1)"
    by (auto split: option.splits)
  from 4(1) [OF c 4(4)] have c': "callback_rec m callbacks s = Some (e1, s1)" .
  show ?case
  proof (cases e1)
    case None
    with c have cn: "callback_rec n callbacks s = Some (None, s1)" by simp
    from 4(3) cn have "run_handler n callbacks Internal acts s1 = Some r" by simp
    from 4(2) [OF cn refl refl this 4(4)] c' None show ?thesis
      by simp
  next
    case (Some a)
    from 4(3) c Some have "r = (Some a, s1)" by simp
    with c' Some show ?thesis by simp
  qed
next
  case (5 callbacks s)
  from 5(1) show ?case by simp
next
  case (6 n callbacks s)
  from 6(3) obtain m' where m: "m = Suc m'" "n \<le> m'"
    by (cases m) auto
  let ?s1 = "s\<lparr>i := i s + 1\<rparr>"
  show ?case
  proof (cases "0 \<le> i ?s1 \<and> nat (i ?s1) < length callbacks")
    case r: True
    show ?thesis
    proof (cases "callbacks ! nat (i ?s1)")
      case (Fn body)
      with 6(2) r have "run_handler n callbacks
          (if i ?s1 + 1 = int (length callbacks) then External else Internal) body
          (?s1\<lparr>trace := trace ?s1 @ [Called (nat (i ?s1))
             (if i ?s1 + 1 = int (length callbacks) then External else Internal)]\<rparr>) = Some r"
        by (simp add: Let_def)
      from 6(1) [OF refl refl r Fn this m(2)] Fn r m show ?thesis
        by (simp add: Let_def)
    next
      case NotFn
      with 6(2) r m show ?thesis by (simp add: Let_def)
    qed
  next
    case False
    with 6(2) have "r = (Some TypeError, ?s1)"
      by (simp add: Let_def split: if_splits)
    with False m show ?thesis by (auto simp: Let_def)
  qed
qed


text \<open>
  The end of the middleware, for the handlers \<open>found\<close>: none or an empty array,
  any array of functions, and an array of handlers that call their continuation
  once.
\<close>

lemma dispatch_runs:
  "dispatch n (None :: 'e callback list option) = Some (None, \<lparr>i = - 1, trace = [Fallback]\<rparr>)
   \<and> dispatch n (Some ([] :: 'e callback list)) = Some (None, \<lparr>i = - 1, trace = [Fallback]\<rparr>)
   \<and> (hs \<noteq> [] \<and> list_all callable hs \<and> length hs < n \<longrightarrow>
        (\<exists>e s m. dispatch n (Some (hs :: 'e callback list)) = Some (e, s)
           \<and> 0 < m \<and> m \<le> length hs \<and> calls (trace s) = in_order (length hs) m
           \<and> (Fallback \<in> set (trace s) \<longrightarrow> m = length hs)))
   \<and> (pps \<noteq> [] \<and> length pps < n \<longrightarrow>
        dispatch n (Some (map handler_of (pps :: ('e list \<times> 'e list) list)))
          = Some (None, \<lparr>i = int (length pps) - 1, trace = chain_trace (length pps) 0 pps\<rparr>))"
proof (intro conjI impI)
  let ?s0 = "\<lparr>i = - 1, trace = []\<rparr> :: 'e run"
  show "dispatch n (None :: 'e callback list option) = Some (None, \<lparr>i = - 1, trace = [Fallback]\<rparr>)"
    by (simp add: dispatch_def)
  show "dispatch n (Some ([] :: 'e callback list)) = Some (None, \<lparr>i = - 1, trace = [Fallback]\<rparr>)"
    by (simp add: dispatch_def)
  show "\<exists>e s m. dispatch n (Some hs) = Some (e, s)
           \<and> 0 < m \<and> m \<le> length hs \<and> calls (trace s) = in_order (length hs) m
           \<and> (Fallback \<in> set (trace s) \<longrightarrow> m = length hs)"
    if h: "hs \<noteq> [] \<and> list_all callable hs \<and> length hs < n"
  proof -
    from h have p: "- 1 \<le> i ?s0" "i ?s0 < int (length hs)" "int (length hs) \<le> int n + i ?s0"
      by auto
    from run_total(2) [OF p] obtain e s where
      r: "callback_rec n hs ?s0 = Some (e, s)" and up: "i ?s0 < i s"
      by blast
    have "orderly hs ?s0"
      by (simp add: orderly_def calls_def in_order_def)
    with h r have o: "orderly hs s"
      using run_orderly(2) [of hs ?s0 n e s] by simp
    let ?m = "min (nat (i s + 1)) (length hs)"
    from up h have "0 < ?m" by auto
    moreover from o have "calls (trace s) = in_order (length hs) ?m"
      by (simp add: orderly_def)
    moreover from o have "Fallback \<in> set (trace s) \<longrightarrow> ?m = length hs"
      by (auto simp: orderly_def)
    moreover from h r have "dispatch n (Some hs) = Some (e, s)"
      by (simp add: dispatch_def)
    ultimately show ?thesis
      by (intro exI [of _ e] exI [of _ s] exI [of _ ?m]) simp
  qed
  show "dispatch n (Some (map handler_of pps))
          = Some (None, \<lparr>i = int (length pps) - 1, trace = chain_trace (length pps) 0 pps\<rparr>)"
    if h: "pps \<noteq> [] \<and> length pps < n"
  proof -
    from h have p: "0 < length pps" "i ?s0 = int 0 - 1" "length pps - 0 \<le> n"
      by auto
    from run_chain [OF p] h show ?thesis
      by (simp add: dispatch_def)
  qed
qed

lemma dispatch_runs_example:
  "dispatch 4 (Some [Fn [Note ''h1'', CallNext], Fn [Note ''h2'', CallNext], Fn [Note ''h3'', CallNext]])
     = Some (None, \<lparr>i = 2, trace = [Called 0 Internal, Noted ''h1'', Called 1 Internal, Noted ''h2'',
          Called 2 External, Noted ''h3'', Fallback]\<rparr>)
   \<and> calls [Called 0 Internal, Noted ''h1'', Called 1 Internal, Noted ''h2'',
          Called 2 External, Noted ''h3'', Fallback]
       = in_order 3 3
   \<and> dispatch 4 (None :: string callback list option) = Some (None, \<lparr>i = - 1, trace = [Fallback]\<rparr>)
   \<and> dispatch 4 (Some ([] :: string callback list)) = Some (None, \<lparr>i = - 1, trace = [Fallback]\<rparr>)"
proof -
  let ?pps = "[([''h1''], []), ([''h2''], []), ([''h3''], [])] :: (string list \<times> string list) list"
  let ?hs = "[Fn [Note ''h1'', CallNext], Fn [Note ''h2'', CallNext], Fn [Note ''h3'', CallNext]]
    :: string callback list"
  let ?tr = "[Called 0 Internal, Noted ''h1'', Called 1 Internal, Noted ''h2'',
          Called 2 External, Noted ''h3'', Fallback] :: string event list"
  have 1: "dispatch 4 (Some ?hs) = Some (None, \<lparr>i = 2, trace = ?tr\<rparr>)"
    using dispatch_runs [where n = 4 and pps = ?pps and hs = "[] :: string callback list"]
    by (simp add: handler_of_def numeral_2_eq_2)
  from dispatch_runs [where n = 4 and hs = ?hs and pps = "[] :: (string list \<times> string list) list"]
  obtain e s m where r: "dispatch 4 (Some ?hs) = Some (e, s)"
    "calls (trace s) = in_order (length ?hs) m" "Fallback \<in> set (trace s) \<longrightarrow> m = length ?hs"
    by auto
  from r(1) 1 have "s = \<lparr>i = 2, trace = ?tr\<rparr>" by auto
  then have "trace s = ?tr" by simp
  with r(2,3) have 2: "calls ?tr = in_order 3 3" by (simp add: numeral_3_eq_3)
  have 3: "dispatch 4 (None :: string callback list option)
      = Some (None, \<lparr>i = - 1, trace = [Fallback]\<rparr>)"
    "dispatch 4 (Some ([] :: string callback list)) = Some (None, \<lparr>i = - 1, trace = [Fallback]\<rparr>)"
    using dispatch_runs [where n = 4 and pps = "[] :: (string list \<times> string list) list"
        and hs = "[] :: string callback list"]
    by blast+
  show ?thesis using 1 2 3 by blast
qed

text \<open>A handler that calls its continuation twice: the second call goes past the end.\<close>

lemma dispatch_called_twice:
  "dispatch 3 (Some [Fn [Note ''h1'', CallNext, CallNext], Fn [Note ''h2'']])
     = Some (Some TypeError,
         \<lparr>i = 2, trace = [Called 0 Internal, Noted ''h1'', Called 1 External, Noted ''h2'']\<rparr>)"
  by (simp add: dispatch_def numeral_3_eq_3)

text \<open>
  Every table built by registration calls is well formed, so the handlers the
  lookup finds are a non-empty array of functions.
\<close>

lemma well_formed_empty: "well_formed Map.empty"
  by (simp add: well_formed_def entry_def)

lemma well_formed_perform: "well_formed (paths t) \<Longrightarrow> well_formed (paths (perform c t))"
proof (cases c)
  case (RegisterResourcePath r ops cbs)
  assume w: "well_formed (paths t)"
  show ?thesis
  proof (cases "registerResourcePath t r ops cbs")
    case (Inl e)
    with w RegisterResourcePath show ?thesis by simp
  next
    case (Inr t')
    then obtain ps where pre: "preconditions t r ops cbs"
      and st: "store (paths t) r ops cbs = Inr ps" and t': "t' = t\<lparr>paths := ps\<rparr>"
      by (auto simp: registerResourcePath_Inr)
    from pre have "cbs \<noteq> [] \<and> list_all callable cbs"
      by (simp add: preconditions_def)
    with w have "well_formed (paths t')"
      unfolding well_formed_def t' by (simp add: store_entry [OF st])
    with Inr RegisterResourcePath show ?thesis by simp
  qed
qed (auto simp: registerResource_def setRootResource_def checkResource_def clear_def
    well_formed_empty split: sum.splits property.splits if_splits)

lemma well_formed_perform_all:
  "well_formed (paths t) \<Longrightarrow> well_formed (paths (perform_all cs t))"
  unfolding perform_all_def
  by (induction cs arbitrary: t) (simp_all add: well_formed_perform)

lemma entry_intro:
  "ps r = Some names \<Longrightarrow> names n = Some parents \<Longrightarrow> parents p = Some methods \<Longrightarrow>
     methods m = Some cbs \<Longrightarrow> entry ps r n p m = Some cbs"
  by (simp add: entry_def)

lemma getResourcePath_entry:
  "getResourcePath t r ops = Inr (Some cbs) \<Longrightarrow> \<exists>n p m. entry (paths t) r n p m = Some cbs"
  unfolding getResourcePath_def read_def
  by (auto split: option.splits sum.splits if_splits property.splits) (blast intro: entry_intro)+

lemma getResourcePath_well_formed:
  assumes "well_formed (paths t)" and "getResourcePath t r ops = Inr (Some cbs)"
  shows "cbs \<noteq> [] \<and> list_all callable cbs"
proof -
  from getResourcePath_entry [OF assms(2)] obtain n p m where
    "entry (paths t) r n p m = Some cbs" by blast
  with assms(1) show ?thesis
    unfolding well_formed_def by blast
qed

text \<open>The middleware runs the handlers that the lookup for the leaf finds.\<close>

lemma lookup_ops_resource [simp]:
  "lookup_ops leaf (req\<lparr>req_resource := x\<rparr>) = lookup_ops leaf req"
  by (simp add: lookup_ops_def)

lemma middleware_dispatch:
  "buildChain t req = Inr (leaf, req') \<Longrightarrow>
   getResourcePath t (resource leaf) (lookup_ops leaf req') = Inr found \<Longrightarrow>
   middleware n t req =
     (case dispatch n found of
        None \<Rightarrow> None
      | Some (e, s) \<Rightarrow> Some (Inr (req'\<lparr>req_resource := Some leaf\<rparr>, e, s)))"
  by (simp add: middleware_def)

text \<open>The requests of the site with paths, up to the lookup.\<close>

lemma get_same_resources:
  assumes "resources t = resources t'"
  shows "get t x k = get t' x k"
  unfolding get_def checkResource_def assms ..

lemma routes_get: "get routes x k = get site x k"
  by (rule get_same_resources) (simp add: routes_root)

lemma routes_descends:
  "descends routes (new_obj (Factory ''root'' root_proto) None None None) [''users''] users_inst"
  "descends routes (new_obj (Factory ''root'' root_proto) None None None) [''users'', ''42''] user_inst"
proof -
  have u: "get routes root_inst ''users'' = Inr (Some users_inst)"
    by (simp add: routes_get site_get_users)
  have v: "get routes users_inst ''42'' = Inr (Some user_inst)"
    by (simp add: routes_get site_get_42)
  show "descends routes (new_obj (Factory ''root'' root_proto) None None None) [''users''] users_inst"
    unfolding root_inst_def [symmetric]
    by (rule descends.step [OF u], rule descends.here)
  show "descends routes (new_obj (Factory ''root'' root_proto) None None None) [''users'', ''42'']
      user_inst"
    unfolding root_inst_def [symmetric]
    by (rule descends.step [OF u], rule descends.step [OF v], rule descends.here)
qed

lemma routes_get_none:
  "get routes user_inst ''edit'' = Inr None" "get routes users_inst ''abc'' = Inr None"
  by (simp_all add: routes_get site_get_edit)
    (simp add: get_def children_at_def child_for_def new_or_null_def users_inst_eq numeric_def)

lemma routes_buildChain:
  "buildChain routes (post_req ''/users/42/edit'')
     = Inr (user_inst, (post_req ''/users/42/edit'')\<lparr>pathname := Some ''edit'', subpath := Some []\<rparr>)"
  "buildChain routes (get_req ''/users/abc'')
     = Inr (users_inst, (get_req ''/users/abc'')\<lparr>pathname := Some ''abc'', subpath := Some []\<rparr>)"
  "buildChain routes (get_req ''/users/42'') = Inr (user_inst, get_req ''/users/42'')"
proof -
  have r: "root routes = Some (Factory ''root'' root_proto)"
    by (simp add: routes_root site_root)
  have s: "segments (url (post_req ''/users/42/edit'')) = [''users'', ''42''] @ ''edit'' # []"
    "segments (url (get_req ''/users/abc'')) = [''users''] @ ''abc'' # []"
    "segments (url (get_req ''/users/42'')) = [''users'', ''42'']"
    by (simp_all add: segments_def post_req_def get_req_def)
  have n: "\<forall>s \<in> set [''users'', ''42'']. s \<noteq> []" "\<forall>s \<in> set [''users'']. s \<noteq> []"
    "''edit'' \<noteq> []" "''abc'' \<noteq> []"
    by simp_all
  show "buildChain routes (post_req ''/users/42/edit'')
     = Inr (user_inst, (post_req ''/users/42/edit'')\<lparr>pathname := Some ''edit'', subpath := Some []\<rparr>)"
    unfolding buildChain_build [OF r] s(1)
    by (rule build_stop [OF n(1) n(3) routes_descends(2) routes_get_none(1)])
  show "buildChain routes (get_req ''/users/abc'')
     = Inr (users_inst, (get_req ''/users/abc'')\<lparr>pathname := Some ''abc'', subpath := Some []\<rparr>)"
    unfolding buildChain_build [OF r] s(2)
    by (rule build_stop [OF n(2) n(4) routes_descends(1) routes_get_none(2)])
  show "buildChain routes (get_req ''/users/42'') = Inr (user_inst, get_req ''/users/42'')"
    unfolding buildChain_build [OF r] s(3)
    by (rule build_all [OF routes_descends(2) n(1)])
qed

lemma routes_lookup:
  "getResourcePath routes (resource user_inst)
     (lookup_ops user_inst ((post_req ''/users/42/edit'')\<lparr>pathname := Some ''edit'', subpath := Some []\<rparr>))
     = Inr (Some (map handler_of [([''auth''], []), ([''save''], [])]))"
  "getResourcePath routes (resource users_inst)
     (lookup_ops users_inst ((get_req ''/users/abc'')\<lparr>pathname := Some ''abc'', subpath := Some []\<rparr>))
     = Inr None"
  "getResourcePath routes (resource user_inst) (lookup_ops user_inst (get_req ''/users/42''))
     = Inr (Some [Fn [Note ''show'']])"
  by (simp_all add: getResourcePath_def read_def not_inherited lookup_ops_def routes_paths
      user_inst_eq users_inst_eq post_req_def get_req_def or_default_def lower_char_letters
      handler_of_def)

text \<open>
  Claim C3. The middleware builds the chain and looks the handlers of the leaf up.
  When the lookup finds nothing, or an empty array, it calls \<open>next\<close> and nothing
  else. Otherwise, for handlers that are functions and a bound
  above their number: the run ends; the handlers called are \<open>callbacks[0]\<close>,
  \<open>callbacks[1]\<close>, ... in the order of the array, without gap or repetition, each
  with \<open>_callback\<close> as its continuation but the last of the array, which gets
  \<open>next\<close>; and \<open>next\<close> is called only after all of them have been called. When each
  handler calls its continuation once, every handler runs, and the log is: the first
  handler up to its call, the second up to its call, ..., the last up to its call,
  \<open>next\<close>, and then what the handlers do after their calls, last handler first.
\<close>

theorem middleware_chain:
  "buildChain t req = Inr (leaf, req')
   \<and> getResourcePath t (resource leaf) (lookup_ops leaf req') = Inr found \<longrightarrow>
   (found = None \<or> found = Some [] \<longrightarrow>
      middleware n t req
        = Some (Inr (req'\<lparr>req_resource := Some leaf\<rparr>, None, \<lparr>i = - 1, trace = [Fallback]\<rparr>)))
   \<and> (found = Some hs \<and> hs \<noteq> [] \<and> list_all callable hs \<and> length hs < n \<longrightarrow>
        (\<exists>e s m. middleware n t req = Some (Inr (req'\<lparr>req_resource := Some leaf\<rparr>, e, s))
           \<and> 0 < m \<and> m \<le> length hs \<and> calls (trace s) = in_order (length hs) m
           \<and> (Fallback \<in> set (trace s) \<longrightarrow> m = length hs)))
   \<and> (found = Some (map handler_of pps) \<and> pps \<noteq> [] \<and> length pps < n \<longrightarrow>
        middleware n t req
          = Some (Inr (req'\<lparr>req_resource := Some leaf\<rparr>, None,
              \<lparr>i = int (length pps) - 1, trace = chain_trace (length pps) 0 pps\<rparr>)))"
proof (intro impI conjI)
  assume a: "buildChain t req = Inr (leaf, req')
   \<and> getResourcePath t (resource leaf) (lookup_ops leaf req') = Inr found"
  then have m: "middleware n t req =
     (case dispatch n found of
        None \<Rightarrow> None
      | Some (e, s) \<Rightarrow> Some (Inr (req'\<lparr>req_resource := Some leaf\<rparr>, e, s)))"
    by (simp add: middleware_dispatch)
  note d = dispatch_runs [where n = n and hs = hs and pps = pps]
  show "middleware n t req
        = Some (Inr (req'\<lparr>req_resource := Some leaf\<rparr>, None, \<lparr>i = - 1, trace = [Fallback]\<rparr>))"
    if "found = None \<or> found = Some []"
    using that m d by auto
  show "\<exists>e s m. middleware n t req = Some (Inr (req'\<lparr>req_resource := Some leaf\<rparr>, e, s))
           \<and> 0 < m \<and> m \<le> length hs \<and> calls (trace s) = in_order (length hs) m
           \<and> (Fallback \<in> set (trace s) \<longrightarrow> m = length hs)"
    if h: "found = Some hs \<and> hs \<noteq> [] \<and> list_all callable hs \<and> length hs < n"
  proof -
    from h d obtain e s k where "dispatch n (Some hs) = Some (e, s)" "0 < k" "k \<le> length hs"
      "calls (trace s) = in_order (length hs) k" "Fallback \<in> set (trace s) \<longrightarrow> k = length hs"
      by blast
    with h m show ?thesis by auto
  qed
  show "middleware n t req
          = Some (Inr (req'\<lparr>req_resource := Some leaf\<rparr>, None,
              \<lparr>i = int (length pps) - 1, trace = chain_trace (length pps) 0 pps\<rparr>))"
    if h: "found = Some (map handler_of pps) \<and> pps \<noteq> [] \<and> length pps < n"
  proof -
    from h d have "dispatch n (Some (map handler_of pps))
        = Some (None, \<lparr>i = int (length pps) - 1, trace = chain_trace (length pps) 0 pps\<rparr>)"
      by blast
    with h m show ?thesis by simp
  qed
qed


theorem middleware_chain_witness:
  "middleware 3 routes (post_req ''/users/42/edit'')
     = Some (Inr ((post_req ''/users/42/edit'')
                    \<lparr>pathname := Some ''edit'', subpath := Some [], req_resource := Some user_inst\<rparr>,
                  None,
                  \<lparr>i = 1, trace = [Called 0 Internal, Noted ''auth'', Called 1 External,
                     Noted ''save'', Fallback]\<rparr>))
   \<and> middleware 3 routes (get_req ''/users/abc'')
     = Some (Inr ((get_req ''/users/abc'')
                    \<lparr>pathname := Some ''abc'', subpath := Some [], req_resource := Some users_inst\<rparr>,
                  None, \<lparr>i = - 1, trace = [Fallback]\<rparr>))
   \<and> (\<exists>e s. middleware 3 routes (get_req ''/users/42'')
               = Some (Inr ((get_req ''/users/42'')\<lparr>req_resource := Some user_inst\<rparr>, e, s))
          \<and> calls (trace s) = [Called 0 External])"
proof -
  let ?pps = "[([''auth''], []), ([''save''], [])] :: (string list \<times> string list) list"
  have 1: "middleware 3 routes (post_req ''/users/42/edit'')
     = Some (Inr ((post_req ''/users/42/edit'')
                    \<lparr>pathname := Some ''edit'', subpath := Some [], req_resource := Some user_inst\<rparr>,
                  None,
                  \<lparr>i = 1, trace = [Called 0 Internal, Noted ''auth'', Called 1 External,
                     Noted ''save'', Fallback]\<rparr>))"
    using middleware_chain [where t = routes and req = "post_req ''/users/42/edit''"
        and leaf = user_inst and n = 3 and pps = ?pps and hs = "[]"
        and req' = "(post_req ''/users/42/edit'')\<lparr>pathname := Some ''edit'', subpath := Some []\<rparr>"
        and found = "Some (map handler_of ?pps)"]
      routes_buildChain(1) routes_lookup(1)
    by simp
  have 2: "middleware 3 routes (get_req ''/users/abc'')
     = Some (Inr ((get_req ''/users/abc'')
                    \<lparr>pathname := Some ''abc'', subpath := Some [], req_resource := Some users_inst\<rparr>,
                  None, \<lparr>i = - 1, trace = [Fallback]\<rparr>))"
    using middleware_chain [where t = routes and req = "get_req ''/users/abc''"
        and leaf = users_inst and n = 3 and pps = "[]" and hs = "[]"
        and req' = "(get_req ''/users/abc'')\<lparr>pathname := Some ''abc'', subpath := Some []\<rparr>"
        and found = None]
      routes_buildChain(2) routes_lookup(2)
    by simp
  from middleware_chain [where t = routes and req = "get_req ''/users/42''"
        and leaf = user_inst and n = 3 and pps = "[]" and hs = "[Fn [Note ''show'']]"
        and req' = "get_req ''/users/42''" and found = "Some [Fn [Note ''show'']]"]
      routes_buildChain(3) routes_lookup(3)
  obtain e s m where r: "middleware 3 routes (get_req ''/users/42'')
               = Some (Inr ((get_req ''/users/42'')\<lparr>req_resource := Some user_inst\<rparr>, e, s))"
    "0 < m" "m \<le> 1" "calls (trace s) = in_order 1 m"
    by auto
  then have "m = 1" by simp
  with r have 3: "\<exists>e s. middleware 3 routes (get_req ''/users/42'')
               = Some (Inr ((get_req ''/users/42'')\<lparr>req_resource := Some user_inst\<rparr>, e, s))
          \<and> calls (trace s) = [Called 0 External]"
    by (auto simp: in_order_def)
  show ?thesis using 1 2 3 by blast
qed

end
